theory Spec2Isabelle
  imports Main "HOL-Library.Multiset"
begin

section \<open>The environment of \<open>mozsvcdeploy.util\<close>\<close>

text \<open>
  The module polls and tears down boto objects that live outside it.  An object is
  referred to by its identity; its attributes and the behaviour of its methods are kept
  in a store, so that two ledger entries naming the same object share it.

  Time is the wall clock read by \<open>time.time()\<close>, in clock ticks.  It advances when the
  program sleeps and while a call to the outside world is under way; how long the k-th call
  of a method takes, and how it ends, is given by the object's script.
\<close>

type_synonym oid = nat
type_synonym status = string

text \<open>
  The exceptions.  \<open>KeyboardInterrupt\<close> and \<open>SystemExit\<close> are not subclasses of Python's
  \<open>Exception\<close>, the others are: an \<open>except Exception\<close> clause catches exactly those.
\<close>

datatype exn =
    AttributeError string
  | RuntimeError string
  | ValueError string
  | IOError string
  | SocketError
  | ServiceError string
  | KeyboardInterrupt
  | SystemExit

fun is_Exception :: "exn \<Rightarrow> bool" where
  "is_Exception KeyboardInterrupt = False"
| "is_Exception SystemExit = False"
| "is_Exception e = True"

datatype ec2_class = Instance | Volume | Snapshot | OtherClass

text \<open>
  What one call of \<open>update()\<close> does: it raises, or it returns a status and leaves the
  object with the given \<open>status\<close> attribute (\<open>None\<close>: the object has no such attribute,
  as for the types that only return the status).
\<close>

datatype upd_outcome = UpdRaises exn | UpdReturns status "status option"

record obj =
  cls :: ec2_class
  has_update :: bool
  has_terminate :: bool
  has_delete :: bool
  status_attr :: "status option"
  public_dns_name :: "string option"
  on_update :: "nat \<Rightarrow> nat \<times> upd_outcome"
  on_terminate :: "nat \<Rightarrow> nat \<times> exn option"
  on_delete :: "nat \<Rightarrow> nat \<times> exn option"
  on_connect :: "nat \<Rightarrow> nat \<times> bool"
  n_update :: nat
  n_terminate :: nat
  n_delete :: nat
  n_connect :: nat

datatype meth = Update | Terminate | Delete | Connect

datatype level = Debug | Warn | Exception

datatype logarg = ObjArg oid | StrArg string

datatype event =
    Called oid meth
  | Logged level string "logarg list"
  | Slept int

record world =
  now :: int
  objs :: "oid \<Rightarrow> obj"
  trace :: "event list"

type_synonym 'a result = "(exn + 'a) \<times> world"

definition emit :: "event \<Rightarrow> world \<Rightarrow> world" where
  "emit e w = w\<lparr>trace := trace w @ [e]\<rparr>"

definition logger :: "level \<Rightarrow> string \<Rightarrow> logarg list \<Rightarrow> world \<Rightarrow> world" where
  "logger l fmt args w = emit (Logged l fmt args) w"

definition time_time :: "world \<Rightarrow> int" where
  "time_time w = now w"

text \<open>\<open>time.sleep\<close> refuses a negative length.\<close>

definition time_sleep :: "int \<Rightarrow> world \<Rightarrow> unit result" where
  "time_sleep s w =
     (if s < 0 then (Inl (IOError ''[Errno 22] Invalid argument''), w)
      else (Inr (), emit (Slept s) (w\<lparr>now := now w + s\<rparr>)))"

definition elapse :: "nat \<Rightarrow> world \<Rightarrow> world" where
  "elapse d w = w\<lparr>now := now w + int d\<rparr>"

definition set_obj :: "oid \<Rightarrow> obj \<Rightarrow> world \<Rightarrow> world" where
  "set_obj r ob w = w\<lparr>objs := (objs w)(r := ob)\<rparr>"

text \<open>\<open>obj.update()\<close>: an attribute error when the object has no such method.\<close>

definition call_update :: "oid \<Rightarrow> world \<Rightarrow> status result" where
  "call_update r w =
     (let ob = objs w r in
      if \<not> has_update ob then (Inl (AttributeError ''update''), w)
      else
        (case on_update ob (n_update ob) of
           (d, UpdRaises e) \<Rightarrow>
             (Inl e, set_obj r (ob\<lparr>n_update := n_update ob + 1\<rparr>)
                       (elapse d (emit (Called r Update) w)))
         | (d, UpdReturns ret attr) \<Rightarrow>
             (Inr ret, set_obj r (ob\<lparr>n_update := n_update ob + 1, status_attr := attr\<rparr>)
                         (elapse d (emit (Called r Update) w)))))"

text \<open>\<open>getattr(obj, "status", default)\<close>.\<close>

definition getattr_status :: "oid \<Rightarrow> status \<Rightarrow> world \<Rightarrow> status" where
  "getattr_status r dflt w =
     (case status_attr (objs w r) of Some s \<Rightarrow> s | None \<Rightarrow> dflt)"

definition call_terminate :: "oid \<Rightarrow> world \<Rightarrow> unit result" where
  "call_terminate r w =
     (let ob = objs w r in
      if \<not> has_terminate ob then (Inl (AttributeError ''terminate''), w)
      else
        (let (d, out) = on_terminate ob (n_terminate ob);
             w' = set_obj r (ob\<lparr>n_terminate := n_terminate ob + 1\<rparr>)
                    (elapse d (emit (Called r Terminate) w))
         in case out of Some e \<Rightarrow> (Inl e, w') | None \<Rightarrow> (Inr (), w')))"

definition call_delete :: "oid \<Rightarrow> world \<Rightarrow> unit result" where
  "call_delete r w =
     (let ob = objs w r in
      if \<not> has_delete ob then (Inl (AttributeError ''delete''), w)
      else
        (let (d, out) = on_delete ob (n_delete ob);
             w' = set_obj r (ob\<lparr>n_delete := n_delete ob + 1\<rparr>)
                    (elapse d (emit (Called r Delete) w))
         in case out of Some e \<Rightarrow> (Inl e, w') | None \<Rightarrow> (Inr (), w')))"

text \<open>
  One connection attempt of the readiness wait: a socket with \<open>settimeout(sleep_time)\<close>,
  then \<open>connect\<close> and \<open>close\<close>.  \<open>settimeout\<close> refuses a negative value; with the value 0
  the socket does not block and \<open>connect\<close> fails at once, whatever the peer would answer;
  an attempt that would need longer than the socket's timeout fails when the timeout has
  passed; a refused attempt fails when the peer answers.  The failures are \<open>socket.error\<close>.
\<close>

definition socket_connect :: "oid \<Rightarrow> int \<Rightarrow> world \<Rightarrow> unit result" where
  "socket_connect r sleep_time w =
     (if sleep_time < 0 then (Inl (ValueError ''Timeout value out of range''), w)
      else
        (let ob = objs w r;
             (d, ok) = on_connect ob (n_connect ob);
             w1 = set_obj r (ob\<lparr>n_connect := n_connect ob + 1\<rparr>) (emit (Called r Connect) w)
         in if sleep_time = 0 then (Inl SocketError, w1)
            else if int d \<le> sleep_time
            then (if ok then (Inr (), elapse d w1) else (Inl SocketError, elapse d w1))
            else (Inl SocketError, elapse (nat sleep_time) w1)))"

section \<open>The poller\<close>

text \<open>
  The \<open>while True\<close> loop of \<open>wait_for_status\<close>.  \<open>max_time\<close> is \<open>None\<close> exactly when
  the timeout is \<open>None\<close> (the source leaves the variable unbound then and never reads it).
  A run that never leaves the loop has the value \<open>None\<close>.
\<close>

partial_function (option) wfs_loop ::
  "oid \<Rightarrow> status \<Rightarrow> status list option \<Rightarrow> int option \<Rightarrow> int \<Rightarrow> world \<Rightarrow> bool result option"
where
  "wfs_loop obj status via max_time sleep_time w =
     (case call_update obj w of
        (Inl e, w1) \<Rightarrow> Some (Inl e, w1)
      | (Inr ret, w1) \<Rightarrow>
          (let cur_status = getattr_status obj ret w1;
               w2 = logger Debug ''...%s is currently %r'' [ObjArg obj, StrArg cur_status] w1
           in if cur_status = status then Some (Inr True, w2)
              else if (case via of None \<Rightarrow> False | Some vs \<Rightarrow> cur_status \<notin> set vs)
              then Some (Inl (RuntimeError (''Unexpected status: '' @ status)),
                         logger Warn ''...%s has unexpected status %r''
                           [ObjArg obj, StrArg status] w2)
              else if (case max_time of None \<Rightarrow> False | Some m \<Rightarrow> time_time w2 \<ge> m)
              then Some (Inl (RuntimeError ''Operation timed out''),
                         logger Warn ''...timeout waiting for %s status %r''
                           [ObjArg obj, StrArg status] w2)
              else (case time_sleep sleep_time w2 of
                      (Inl e, w3) \<Rightarrow> Some (Inl e, w3)
                    | (Inr u, w3) \<Rightarrow> wfs_loop obj status via max_time sleep_time w3)))"

definition wait_for_status ::
  "oid \<Rightarrow> status \<Rightarrow> status list option \<Rightarrow> int option \<Rightarrow> int \<Rightarrow> world \<Rightarrow> bool result option"
where
  "wait_for_status obj status via timeout sleep_time w =
     (let w0 = logger Debug ''waiting for %s to reach status %r'' [ObjArg obj, StrArg status] w;
          max_time = (case timeout of None \<Rightarrow> None | Some t \<Rightarrow> Some (time_time w0 + t))
      in wfs_loop obj status via max_time sleep_time w0)"

text \<open>The defaults of the keyword arguments \<open>timeout\<close> and \<open>sleep_time\<close>.\<close>

definition default_timeout :: "int option" where
  "default_timeout = Some (5 * 60)"

definition default_sleep_time :: int where
  "default_sleep_time = 5"

text \<open>The \<open>while True\<close> loop of \<open>wait_for_instance_ready\<close>, which waits for port 22.\<close>

partial_function (option) ssh_loop ::
  "oid \<Rightarrow> int option \<Rightarrow> int \<Rightarrow> world \<Rightarrow> unit result option"
where
  "ssh_loop instance max_time sleep_time w =
     (case public_dns_name (objs w instance) of
        None \<Rightarrow> Some (Inl (AttributeError ''public_dns_name''), w)
      | Some host \<Rightarrow>
          (case socket_connect instance sleep_time
                  (logger Debug ''...waiting for ssh on %s'' [StrArg host] w) of
             (Inr u, w2) \<Rightarrow> Some (Inr (), w2)
           | (Inl e, w2) \<Rightarrow>
               if e \<noteq> SocketError then Some (Inl e, w2)
               else if (case max_time of None \<Rightarrow> False | Some m \<Rightarrow> time_time w2 \<ge> m)
               then Some (Inl (RuntimeError ''Operation timed out''),
                          logger Warn ''...timeout waiting for %s to be ready''
                            [ObjArg instance] w2)
               else (case time_sleep sleep_time w2 of
                       (Inl e', w3) \<Rightarrow> Some (Inl e', w3)
                     | (Inr u, w3) \<Rightarrow> ssh_loop instance max_time sleep_time w3)))"

definition wait_for_instance_ready :: "oid \<Rightarrow> int option \<Rightarrow> int \<Rightarrow> world \<Rightarrow> unit result option"
where
  "wait_for_instance_ready instance timeout sleep_time w =
     (let w0 = logger Debug ''waiting for %s to be ready'' [ObjArg instance] w;
          max_time = (case timeout of None \<Rightarrow> None | Some t \<Rightarrow> Some (time_time w0 + t))
      in case wait_for_status instance ''running'' (Some [''pending'']) timeout sleep_time w0 of
           None \<Rightarrow> None
         | Some (Inl e, w1) \<Rightarrow> Some (Inl e, w1)
         | Some (Inr b, w1) \<Rightarrow> ssh_loop instance max_time sleep_time w1)"

section \<open>The cleanup ledger\<close>

text \<open>
  \<open>self.resources\<close> is a list of tuples \<open>(resource, keep_on_success, keep_on_error)\<close>;
  the resource is a reference to an object of the store.
\<close>

record cleanup_context =
  resources :: "(oid \<times> bool \<times> bool) list"

definition init :: cleanup_context where
  "init = \<lparr>resources = []\<rparr>"

text \<open>
  \<open>add(resource, keep_on_success=False, keep_on_error=False)\<close>; a call that leaves a
  keyword argument out passes \<open>False\<close> for it.
\<close>

definition add :: "cleanup_context \<Rightarrow> oid \<Rightarrow> bool \<Rightarrow> bool \<Rightarrow> cleanup_context" where
  "add self resource keep_on_success keep_on_error =
     self\<lparr>resources := resources self @ [(resource, keep_on_success, keep_on_error)]\<rparr>"

definition enter :: "cleanup_context \<Rightarrow> cleanup_context" where
  "enter self = self"

text \<open>
  \<open>isinstance(resource, cls)\<close> for the three boto classes of the ordering table, none of
  which inherits from another: \<^const>\<open>cls\<close> says which of them the object belongs to, if any.
\<close>

definition isinstance :: "obj \<Rightarrow> ec2_class \<Rightarrow> bool" where
  "isinstance resource c = (cls resource = c)"

definition ordered_classes :: "ec2_class list" where
  "ordered_classes = [Instance, Volume, Snapshot]"

text \<open>
  The loop over \<open>enumerate(ordered_classes)\<close> returns the index of the first class the
  resource is an instance of; after the loop, \<open>i\<close> still holds the last index (the tuple is
  not empty) and the result is \<open>i + 1\<close>.
\<close>

definition sortkey_for_cleanup_ordering :: "obj \<Rightarrow> nat" where
  "sortkey_for_cleanup_ordering resource =
     (case find (\<lambda>(i, c). isinstance resource c) (enumerate 0 ordered_classes) of
        Some (i, c) \<Rightarrow> i
      | None \<Rightarrow> fst (last (enumerate 0 ordered_classes)) + 1)"

definition cleanup_resource :: "oid \<Rightarrow> world \<Rightarrow> unit result option" where
  "cleanup_resource resource w =
     (let w0 = logger Debug ''cleaning up %s'' [ObjArg resource] w in
      case (if has_terminate (objs w0 resource)
            then (case call_terminate resource w0 of
                    (Inl e, w1) \<Rightarrow> Some (Inl e, w1)
                  | (Inr u, w1) \<Rightarrow>
                      (case wait_for_status resource ''terminated'' None
                              default_timeout default_sleep_time w1 of
                         None \<Rightarrow> None
                       | Some (Inl e, w2) \<Rightarrow> Some (Inl e, w2)
                       | Some (Inr b, w2) \<Rightarrow> Some (Inr (), w2)))
            else Some (Inr (), w0)) of
        None \<Rightarrow> None
      | Some (Inl e, w3) \<Rightarrow> Some (Inl e, w3)
      | Some (Inr u, w3) \<Rightarrow>
          if has_delete (objs w3 resource) then Some (call_delete resource w3)
          else Some (Inr (), w3))"

text \<open>
  The \<open>for\<close> loop of \<open>__exit__\<close>, with its \<open>try\<close> ... \<open>except Exception\<close> around each
  resource: an exception of the teardown that is a subclass of \<open>Exception\<close> is logged and
  the loop goes on; any other leaves the loop, and \<open>__exit__\<close>, at once.
\<close>

fun cleanup_all :: "oid list \<Rightarrow> world \<Rightarrow> unit result option" where
  "cleanup_all [] w = Some (Inr (), w)"
| "cleanup_all (r # rs) w =
     (case cleanup_resource r w of
        None \<Rightarrow> None
      | Some (Inl e, w1) \<Rightarrow>
          if is_Exception e
          then cleanup_all rs (logger Exception ''failed to cleanup %s'' [ObjArg r] w1)
          else Some (Inl e, w1)
      | Some (Inr u, w1) \<Rightarrow> cleanup_all rs w1)"

text \<open>
  The list \<open>to_cleanup\<close> of \<open>__exit__\<close> before it is sorted.  The three arguments are the
  exception type, value and traceback handed over by the \<open>with\<close> statement.
\<close>

definition to_cleanup ::
  "cleanup_context \<Rightarrow> string option \<Rightarrow> exn option \<Rightarrow> nat option \<Rightarrow> oid list" where
  "to_cleanup self exc_typ exc_val exc_tb =
     (if exc_typ = None \<and> exc_val = None \<and> exc_tb = None
      then [fst r. r \<leftarrow> resources self, \<not> fst (snd r)]
      else [fst r. r \<leftarrow> resources self, \<not> snd (snd r)])"

text \<open>
  \<open>__exit__\<close>.  \<open>list.sort(key=...)\<close> is stable, as is \<^const>\<open>sort_key\<close>.  The method has
  no \<open>return\<close> statement: it answers \<open>None\<close>, the unit value here.
\<close>

definition exit_ctx ::
  "cleanup_context \<Rightarrow> string option \<Rightarrow> exn option \<Rightarrow> nat option \<Rightarrow> world \<Rightarrow> unit result option"
where
  "exit_ctx self exc_typ exc_val exc_tb w =
     cleanup_all
       (sort_key (\<lambda>r. sortkey_for_cleanup_ordering (objs w r))
          (to_cleanup self exc_typ exc_val exc_tb)) w"



section \<open>Reading a trace\<close>

text \<open>What a run has added to the trace.\<close>

definition new_events :: "world \<Rightarrow> world \<Rightarrow> event list" where
  "new_events w w' = drop (length (trace w)) (trace w')"

text \<open>The resources whose teardown was started, in the order of the log.\<close>

fun attempted :: "event list \<Rightarrow> oid list" where
  "attempted [] = []"
| "attempted (Logged l fmt args # es) =
     (if l = Debug \<and> fmt = ''cleaning up %s''
      then (case args of [ObjArg r] \<Rightarrow> r # attempted es | _ \<Rightarrow> attempted es)
      else attempted es)"
| "attempted (e # es) = attempted es"

text \<open>The statuses seen by the poller, one for each pass of its loop that logged one.\<close>

fun samples :: "event list \<Rightarrow> status list" where
  "samples [] = []"
| "samples (Logged l fmt args # es) =
     (if l = Debug \<and> fmt = ''...%s is currently %r''
      then (case args of [ObjArg r, StrArg s] \<Rightarrow> s # samples es | _ \<Rightarrow> samples es)
      else samples es)"
| "samples (e # es) = samples es"

text \<open>
  The method calls of a trace, and its method calls together with its status samples.
\<close>

fun is_call :: "event \<Rightarrow> bool" where
  "is_call (Called r m) = True"
| "is_call e = False"

definition method_calls :: "event list \<Rightarrow> event list" where
  "method_calls evs = filter is_call evs"

definition polls :: "event list \<Rightarrow> event list" where
  "polls evs = filter (\<lambda>e. is_call e \<or> samples [e] \<noteq> []) evs"

text \<open>The messages of the module, as events.\<close>

definition timeout_warning :: "oid \<Rightarrow> status \<Rightarrow> event" where
  "timeout_warning obj status =
     Logged Warn ''...timeout waiting for %s status %r'' [ObjArg obj, StrArg status]"

definition unexpected_warning :: "oid \<Rightarrow> status \<Rightarrow> event" where
  "unexpected_warning obj status =
     Logged Warn ''...%s has unexpected status %r'' [ObjArg obj, StrArg status]"

definition ready_timeout_warning :: "oid \<Rightarrow> event" where
  "ready_timeout_warning instance =
     Logged Warn ''...timeout waiting for %s to be ready'' [ObjArg instance]"

definition cleaning :: "oid \<Rightarrow> event" where
  "cleaning r = Logged Debug ''cleaning up %s'' [ObjArg r]"

text \<open>What one pass of the poller adds when \<open>update()\<close> returns: the call and the sample.\<close>

definition pass_events :: "oid \<Rightarrow> status \<Rightarrow> event list" where
  "pass_events obj cur =
     [Called obj Update, Logged Debug ''...%s is currently %r'' [ObjArg obj, StrArg cur]]"

section \<open>Vocabulary of the proofs\<close>

text \<open>
  A status seen while waiting for \<open>status\<close> is the target, or a transit status (not the
  target, and in the transit set if there is one), or unexpected (not the target, and
  outside the transit set that was given).
\<close>

definition transit :: "status \<Rightarrow> status list option \<Rightarrow> status \<Rightarrow> bool" where
  "transit status via s = (s \<noteq> status \<and> (case via of None \<Rightarrow> True | Some vs \<Rightarrow> s \<in> set vs))"

definition unexpected :: "status \<Rightarrow> status list option \<Rightarrow> status \<Rightarrow> bool" where
  "unexpected status via s = (s \<noteq> status \<and> (case via of None \<Rightarrow> False | Some vs \<Rightarrow> s \<notin> set vs))"

text \<open>The states the poller goes through: after the first debug message, a sample, a sleep.\<close>

definition announced :: "oid \<Rightarrow> status \<Rightarrow> world \<Rightarrow> world" where
  "announced obj status w =
     logger Debug ''waiting for %s to reach status %r'' [ObjArg obj, StrArg status] w"

definition sampled :: "oid \<Rightarrow> status \<Rightarrow> world \<Rightarrow> world" where
  "sampled obj cur w = logger Debug ''...%s is currently %r'' [ObjArg obj, StrArg cur] w"

definition slept :: "int \<Rightarrow> world \<Rightarrow> world" where
  "slept st w = emit (Slept st) (w\<lparr>now := now w + st\<rparr>)"

text \<open>The value of \<open>max_time\<close> when the clock is read in state \<open>w\<close>.\<close>

definition deadline :: "world \<Rightarrow> int option \<Rightarrow> int option" where
  "deadline w timeout = (case timeout of None \<Rightarrow> None | Some t \<Rightarrow> Some (now w + t))"

text \<open>
  What holds of the events \<open>evs\<close> of a finished run of the poller's loop, of its result and
  of the time \<open>tnow\<close> at which it ended.
\<close>

definition run_ok ::
  "oid \<Rightarrow> status \<Rightarrow> status list option \<Rightarrow> int option \<Rightarrow> int \<Rightarrow> event list \<Rightarrow> (exn + bool) \<Rightarrow> bool"
where
  "run_ok obj status via mt tnow evs res =
     (let ss = samples evs in
      list_all (transit status via) (butlast ss) \<and>
      (\<forall>b. res = Inr b \<longrightarrow> b \<and> ss \<noteq> [] \<and> last ss = status) \<and>
      (ss \<noteq> [] \<and> last ss = status \<longrightarrow> res = Inr True) \<and>
      (ss \<noteq> [] \<and> unexpected status via (last ss) \<longrightarrow>
         res = Inl (RuntimeError (''Unexpected status: '' @ status)) \<and>
         last evs = unexpected_warning obj status) \<and>
      (unexpected_warning obj status \<in> set evs \<longrightarrow> ss \<noteq> [] \<and> unexpected status via (last ss)) \<and>
      (timeout_warning obj status \<in> set evs \<longrightarrow>
         res = Inl (RuntimeError ''Operation timed out'') \<and> ss \<noteq> [] \<and> transit status via (last ss) \<and>
         (\<exists>m. mt = Some m \<and> m \<le> tnow)))"

text \<open>
  The events of such a run are the poller's own, and its method calls and samples
  alternate, but for a last call of \<open>update()\<close> that raised.
\<close>

definition poll_event :: "oid \<Rightarrow> status \<Rightarrow> int \<Rightarrow> event \<Rightarrow> bool" where
  "poll_event obj status st e =
     (e = Called obj Update \<or> e = Slept st \<or>
      e = timeout_warning obj status \<or> e = unexpected_warning obj status \<or>
      (\<exists>s. e = Logged Debug ''...%s is currently %r'' [ObjArg obj, StrArg s]))"

definition poll_shape :: "oid \<Rightarrow> status \<Rightarrow> int \<Rightarrow> event list \<Rightarrow> bool" where
  "poll_shape obj status st evs =
     (list_all (poll_event obj status st) evs \<and>
      (polls evs = concat (map (pass_events obj) (samples evs)) \<or>
       polls evs = concat (map (pass_events obj) (samples evs)) @ [Called obj Update]))"

text \<open>An object without what \<open>update()\<close> changes: the poller leaves the rest alone.\<close>

definition frame :: "obj \<Rightarrow> obj" where
  "frame ob = ob\<lparr>status_attr := None, n_update := 0\<rparr>"

text \<open>
  The scripts of the objects are the same in two states; and the scripts of a state raise
  subclasses of \<open>Exception\<close> only.
\<close>

definition same_scripts :: "world \<Rightarrow> world \<Rightarrow> bool" where
  "same_scripts w w' =
     (\<forall>x. on_update (objs w' x) = on_update (objs w x) \<and>
          on_terminate (objs w' x) = on_terminate (objs w x) \<and>
          on_delete (objs w' x) = on_delete (objs w x))"

definition only_exceptions :: "world \<Rightarrow> bool" where
  "only_exceptions w =
     (\<forall>x k e. (snd (on_update (objs w x) k) = UpdRaises e \<longrightarrow> is_Exception e) \<and>
            (snd (on_terminate (objs w x) k) = Some e \<longrightarrow> is_Exception e) \<and>
            (snd (on_delete (objs w x) k) = Some e \<longrightarrow> is_Exception e))"

text \<open>
  What a call gives back to a state with such scripts: the same scripts, and no exception
  outside \<open>Exception\<close>.
\<close>

definition harmless :: "world \<Rightarrow> exn + 'a \<Rightarrow> world \<Rightarrow> bool" where
  "harmless w res w' =
     (same_scripts w w' \<and> (\<forall>e. res = Inl e \<longrightarrow> only_exceptions w \<longrightarrow> is_Exception e))"

text \<open>
  The status that the k-th pass from now will see, if \<open>update()\<close> returns then; and an
  object whose \<open>update()\<close> always returns and never shows anything but a transit status.
\<close>

definition observed :: "obj \<Rightarrow> nat \<Rightarrow> status option" where
  "observed ob k =
     (case snd (on_update ob (n_update ob + k)) of
        UpdRaises e \<Rightarrow> None
      | UpdReturns ret attr \<Rightarrow> Some (case attr of Some s \<Rightarrow> s | None \<Rightarrow> ret))"

definition stays_in_transit :: "oid \<Rightarrow> status \<Rightarrow> status list option \<Rightarrow> world \<Rightarrow> bool" where
  "stays_in_transit obj status via w =
     (has_update (objs w obj) \<and>
      (\<forall>k. \<exists>s. observed (objs w obj) k = Some s \<and> transit status via s))"

text \<open>No call of \<open>update()\<close> of the object takes longer than \<open>D\<close>.\<close>

definition update_within :: "oid \<Rightarrow> nat \<Rightarrow> world \<Rightarrow> bool" where
  "update_within obj D w = (\<forall>k. fst (on_update (objs w obj) k) \<le> D)"

text \<open>
  An instance with a host name whose port 22 accepts no connection within the socket's
  timeout, now or later.
\<close>

definition never_accepts :: "oid \<Rightarrow> int \<Rightarrow> world \<Rightarrow> bool" where
  "never_accepts instance st w =
     (public_dns_name (objs w instance) \<noteq> None \<and>
      (\<forall>k. \<not> snd (on_connect (objs w instance) k) \<or>
           st < int (fst (on_connect (objs w instance) k))))"

section \<open>Some objects and states\<close>

text \<open>
  An object of a given class, with or without \<open>terminate\<close> and \<open>delete\<close>, whose
  \<open>terminate()\<close> raises or not, and whose calls take no time; \<open>update()\<close> follows the
  script.  A script that goes through a list of statuses and then stays on a last one.
\<close>

definition example_obj ::
  "ec2_class \<Rightarrow> bool \<Rightarrow> bool \<Rightarrow> exn option \<Rightarrow> (nat \<Rightarrow> nat \<times> upd_outcome) \<Rightarrow> obj" where
  "example_obj c term del term_raises script =
     \<lparr>cls = c, has_update = True, has_terminate = term, has_delete = del,
      status_attr = None, public_dns_name = Some ''ec2-host'',
      on_update = script, on_terminate = (\<lambda>k. (0, term_raises)),
      on_delete = (\<lambda>k. (0, None)), on_connect = (\<lambda>k. (0, False)),
      n_update = 0, n_terminate = 0, n_delete = 0, n_connect = 0\<rparr>"

fun script_of :: "status list \<Rightarrow> status \<Rightarrow> nat \<Rightarrow> nat \<times> upd_outcome" where
  "script_of [] last_status k = (0, UpdReturns last_status None)"
| "script_of (s # ss) last_status 0 = (0, UpdReturns s None)"
| "script_of (s # ss) last_status (Suc k) = script_of ss last_status k"

text \<open>
  A snapshot, a volume, an instance that terminates at once, an instance whose
  \<open>terminate()\<close> raises, and objects of no class of the table, without \<open>terminate\<close> or
  \<open>delete\<close>; and a ledger that registers five of them.
\<close>

definition example_objs :: "oid \<Rightarrow> obj" where
  "example_objs r =
     (if r = 0 then example_obj Snapshot False True None (\<lambda>k. (0, UpdReturns ''completed'' (Some ''completed'')))
      else if r = 1 then example_obj Volume False True None (\<lambda>k. (0, UpdReturns ''available'' (Some ''available'')))
      else if r = 2 then example_obj Instance True False None (\<lambda>k. (0, UpdReturns ''terminated'' None))
      else if r = 4 then example_obj Instance True False (Some (ServiceError ''EC2ResponseError''))
                           (\<lambda>k. (0, UpdReturns ''running'' None))
      else example_obj OtherClass False False None (\<lambda>k. (0, UpdReturns ''unknown'' None)))"

definition example_world :: world where
  "example_world = \<lparr>now = 0, objs = example_objs, trace = []\<rparr>"

definition example_ledger :: cleanup_context where
  "example_ledger =
     add (add (add (add (add init 0 False False) 1 False False) 3 False False) 4 False False)
       2 False False"


text \<open>Instances to poll: with a given script; and for the readiness wait.\<close>

definition poll_world :: "(nat \<Rightarrow> nat \<times> upd_outcome) \<Rightarrow> world" where
  "poll_world script =
     \<lparr>now = 0, objs = (\<lambda>r. example_obj Instance True False None script), trace = []\<rparr>"

definition ready_world :: "status list \<Rightarrow> world" where
  "ready_world ss =
     \<lparr>now = 0, objs = (\<lambda>r. example_obj Instance True False None (script_of ss ''running'')),
      trace = []\<rparr>"

text \<open>
  Instances with \<open>terminate\<close> and \<open>delete\<close>: one that never leaves \<open>shutting-down\<close>, one
  that is \<open>terminated\<close> at the second look.
\<close>

definition stuck_world :: world where
  "stuck_world =
     \<lparr>now = 0,
      objs = (\<lambda>r. example_obj Instance True True None (script_of [] ''shutting-down'')),
      trace = []\<rparr>"

text \<open>
  An instance that never leaves \<open>shutting-down\<close> either, whose \<open>terminate()\<close> takes 7
  seconds and whose \<open>update()\<close> takes 2.
\<close>

definition slow_stuck_world :: world where
  "slow_stuck_world =
     \<lparr>now = 0,
      objs = (\<lambda>r. (example_obj Instance True True None (\<lambda>k. (2, UpdReturns ''shutting-down'' None)))
                   \<lparr>on_terminate := (\<lambda>k. (7, None))\<rparr>),
      trace = []\<rparr>"

definition both_world :: world where
  "both_world =
     \<lparr>now = 0,
      objs = (\<lambda>r. example_obj Instance True True None (script_of [''shutting-down''] ''terminated'')),
      trace = []\<rparr>"

text \<open>
  Volumes that already have the \<open>status\<close> attribute \<open>available\<close>; volume 1 has no
  \<open>update\<close> method.
\<close>

definition attr_world :: world where
  "attr_world =
     \<lparr>now = 0,
      objs = (\<lambda>r. (example_obj Volume False True None
                      (\<lambda>k. (0, UpdReturns ''available'' (Some ''available''))))
                   \<lparr>status_attr := Some ''available'',
                     has_update := (r \<noteq> 1)\<rparr>),
      trace = []\<rparr>"

section \<open>The poller: one pass and whole runs\<close>

lemma not_transit_target [simp]: "\<not> transit status via status"
  by (simp add: transit_def)

lemma not_unexpected_target [simp]: "\<not> unexpected status via status"
  by (simp add: unexpected_def)

lemma transit_not_unexpected: "transit status via s \<Longrightarrow> \<not> unexpected status via s"
  by (auto simp: transit_def unexpected_def split: option.splits)

lemma samples_append: "samples (xs @ ys) = samples xs @ samples ys"
  by (induction xs rule: samples.induct) (auto split: list.splits logarg.splits)

lemma attempted_append: "attempted (xs @ ys) = attempted xs @ attempted ys"
  by (induction xs rule: attempted.induct) (auto split: list.splits logarg.splits)

lemma samples_pass [simp]: "samples (pass_events obj cur) = [cur]"
  by (simp add: pass_events_def)

lemma warnings_pass [simp]:
  "timeout_warning obj status \<notin> set (pass_events obj cur)"
  "unexpected_warning obj status \<notin> set (pass_events obj cur)"
  by (simp_all add: pass_events_def timeout_warning_def unexpected_warning_def)

lemma samples_warnings [simp]:
  "samples [timeout_warning obj status] = []"
  "samples [unexpected_warning obj status] = []"
  "samples [Slept st] = []"
  "samples [Called obj m] = []"
  by (simp_all add: timeout_warning_def unexpected_warning_def)

lemma warnings_distinct [simp]:
  "timeout_warning obj status \<noteq> unexpected_warning obj status"
  "unexpected_warning obj status \<noteq> timeout_warning obj status"
  "timeout_warning obj status \<noteq> Slept st"
  "unexpected_warning obj status \<noteq> Slept st"
  "timeout_warning obj status \<noteq> Called obj m"
  "unexpected_warning obj status \<noteq> Called obj m"
  by (simp_all add: timeout_warning_def unexpected_warning_def)

lemma run_ok_no_sample:
  assumes "samples evs = []" "timeout_warning obj status \<notin> set evs"
    "unexpected_warning obj status \<notin> set evs"
  shows "run_ok obj status via mt t evs (Inl e)"
  using assms by (simp add: run_ok_def)

lemma run_ok_target:
  "run_ok obj status via mt t (pass_events obj status) (Inr True)"
  by (simp add: run_ok_def)

lemma run_ok_unexpected:
  assumes "unexpected status via cur"
  shows "run_ok obj status via mt t (pass_events obj cur @ [unexpected_warning obj status])
           (Inl (RuntimeError (''Unexpected status: '' @ status)))"
proof -
  have "cur \<noteq> status" using assms by auto
  then show ?thesis using assms by (simp add: run_ok_def samples_append)
qed

lemma run_ok_timeout:
  assumes "transit status via cur" "mt = Some m" "m \<le> t"
  shows "run_ok obj status via mt t (pass_events obj cur @ [timeout_warning obj status])
           (Inl (RuntimeError ''Operation timed out''))"
proof -
  have "cur \<noteq> status" "\<not> unexpected status via cur"
    using assms transit_not_unexpected by auto
  then show ?thesis using assms by (simp add: run_ok_def samples_append)
qed

lemma run_ok_sleep_raises:
  assumes "transit status via cur"
  shows "run_ok obj status via mt t (pass_events obj cur) (Inl e)"
proof -
  have "cur \<noteq> status" "\<not> unexpected status via cur"
    using assms transit_not_unexpected by auto
  then show ?thesis by (simp add: run_ok_def)
qed

lemma run_okI:
  assumes "list_all (transit status via) (butlast (samples evs))"
    "\<And>b. res = Inr b \<Longrightarrow> b \<and> samples evs \<noteq> [] \<and> last (samples evs) = status"
    "samples evs \<noteq> [] \<Longrightarrow> last (samples evs) = status \<Longrightarrow> res = Inr True"
    "samples evs \<noteq> [] \<Longrightarrow> unexpected status via (last (samples evs)) \<Longrightarrow>
       res = Inl (RuntimeError (''Unexpected status: '' @ status)) \<and>
       last evs = unexpected_warning obj status"
    "unexpected_warning obj status \<in> set evs \<Longrightarrow>
       samples evs \<noteq> [] \<and> unexpected status via (last (samples evs))"
    "timeout_warning obj status \<in> set evs \<Longrightarrow>
       res = Inl (RuntimeError ''Operation timed out'') \<and> samples evs \<noteq> [] \<and>
       transit status via (last (samples evs)) \<and> (\<exists>m. mt = Some m \<and> m \<le> t)"
  shows "run_ok obj status via mt t evs res"
  unfolding run_ok_def Let_def using assms by blast

lemma run_okD:
  assumes "run_ok obj status via mt t evs res"
  shows "list_all (transit status via) (butlast (samples evs))"
    "\<And>b. res = Inr b \<Longrightarrow> b \<and> samples evs \<noteq> [] \<and> last (samples evs) = status"
    "samples evs \<noteq> [] \<Longrightarrow> last (samples evs) = status \<Longrightarrow> res = Inr True"
    "samples evs \<noteq> [] \<Longrightarrow> unexpected status via (last (samples evs)) \<Longrightarrow>
       res = Inl (RuntimeError (''Unexpected status: '' @ status)) \<and>
       last evs = unexpected_warning obj status"
    "unexpected_warning obj status \<in> set evs \<Longrightarrow>
       samples evs \<noteq> [] \<and> unexpected status via (last (samples evs))"
    "timeout_warning obj status \<in> set evs \<Longrightarrow>
       res = Inl (RuntimeError ''Operation timed out'') \<and> samples evs \<noteq> [] \<and>
       transit status via (last (samples evs)) \<and> (\<exists>m. mt = Some m \<and> m \<le> t)"
  using assms unfolding run_ok_def Let_def by blast+

lemma run_ok_step:
  assumes tr: "transit status via cur" and ok: "run_ok obj status via mt t evs res"
  shows "run_ok obj status via mt t (pass_events obj cur @ Slept st # evs) res"
proof -
  let ?evs = "pass_events obj cur @ Slept st # evs"
  have cur: "cur \<noteq> status" "\<not> unexpected status via cur"
    using tr transit_not_unexpected by auto
  have ss: "samples ?evs = cur # samples evs"
    by (simp add: samples_append)
  have la: "last (samples ?evs) = (if samples evs = [] then cur else last (samples evs))"
    unfolding ss by simp
  have bl: "butlast (samples ?evs) = (if samples evs = [] then [] else cur # butlast (samples evs))"
    unfolding ss by simp
  have ne: "samples evs \<noteq> [] \<Longrightarrow> last ?evs = last evs"
    by (cases evs) auto
  have m1: "timeout_warning obj status \<in> set ?evs \<longleftrightarrow> timeout_warning obj status \<in> set evs"
    by simp
  have m2: "unexpected_warning obj status \<in> set ?evs \<longleftrightarrow> unexpected_warning obj status \<in> set evs"
    by simp
  note d = run_okD [OF ok]
  show ?thesis
  proof (rule run_okI)
    show "list_all (transit status via) (butlast (samples ?evs))"
      unfolding bl using d(1) tr by simp
  next
    fix b assume "res = Inr b"
    from d(2) [OF this] show "b \<and> samples ?evs \<noteq> [] \<and> last (samples ?evs) = status"
      unfolding la ss by simp
  next
    assume "last (samples ?evs) = status"
    then have "samples evs \<noteq> []" "last (samples evs) = status"
      unfolding la using cur by (auto split: if_splits)
    then show "res = Inr True" by (rule d(3))
  next
    assume "unexpected status via (last (samples ?evs))"
    then have *: "samples evs \<noteq> []" "unexpected status via (last (samples evs))"
      unfolding la using cur by (auto split: if_splits)
    from d(4) [OF *] ne [OF *(1)]
    show "res = Inl (RuntimeError (''Unexpected status: '' @ status)) \<and>
       last ?evs = unexpected_warning obj status" by simp
  next
    assume "unexpected_warning obj status \<in> set ?evs"
    then have "unexpected_warning obj status \<in> set evs" unfolding m2 .
    from d(5) [OF this]
    show "samples ?evs \<noteq> [] \<and> unexpected status via (last (samples ?evs))"
      unfolding la ss by simp
  next
    assume "timeout_warning obj status \<in> set ?evs"
    then have "timeout_warning obj status \<in> set evs" unfolding m1 .
    from d(6) [OF this]
    show "res = Inl (RuntimeError ''Operation timed out'') \<and> samples ?evs \<noteq> [] \<and>
       transit status via (last (samples ?evs)) \<and> (\<exists>m. mt = Some m \<and> m \<le> t)"
      unfolding la ss by simp
  qed
qed

subsection \<open>The six ways through the body of the loop\<close>

lemma wfs_body_cases [consumes 1, case_names raised target unexp timeout sleep_raised cont]:
  assumes body: "(case call_update obj w of
        (Inl e, w1) \<Rightarrow> Some (Inl e, w1)
      | (Inr ret, w1) \<Rightarrow>
          (let cur_status = getattr_status obj ret w1;
               w2 = logger Debug ''...%s is currently %r'' [ObjArg obj, StrArg cur_status] w1
           in if cur_status = status then Some (Inr True, w2)
              else if (case via of None \<Rightarrow> False | Some vs \<Rightarrow> cur_status \<notin> set vs)
              then Some (Inl (RuntimeError (''Unexpected status: '' @ status)),
                         logger Warn ''...%s has unexpected status %r''
                           [ObjArg obj, StrArg status] w2)
              else if (case max_time of None \<Rightarrow> False | Some m \<Rightarrow> time_time w2 \<ge> m)
              then Some (Inl (RuntimeError ''Operation timed out''),
                         logger Warn ''...timeout waiting for %s status %r''
                           [ObjArg obj, StrArg status] w2)
              else (case time_sleep sleep_time w2 of
                      (Inl e, w3) \<Rightarrow> Some (Inl e, w3)
                    | (Inr u, w3) \<Rightarrow> f obj status via max_time sleep_time w3))) = Some y"
  obtains
    (raised) e w1 where "call_update obj w = (Inl e, w1)" "y = (Inl e, w1)"
  | (target) ret w1 where "call_update obj w = (Inr ret, w1)"
      "getattr_status obj ret w1 = status" "y = (Inr True, sampled obj status w1)"
  | (unexp) ret w1 cur where "call_update obj w = (Inr ret, w1)"
      "cur = getattr_status obj ret w1" "unexpected status via cur"
      "y = (Inl (RuntimeError (''Unexpected status: '' @ status)),
            emit (unexpected_warning obj status) (sampled obj cur w1))"
  | (timeout) ret w1 cur m where "call_update obj w = (Inr ret, w1)"
      "cur = getattr_status obj ret w1" "transit status via cur"
      "max_time = Some m" "m \<le> now w1"
      "y = (Inl (RuntimeError ''Operation timed out''),
            emit (timeout_warning obj status) (sampled obj cur w1))"
  | (sleep_raised) ret w1 cur where "call_update obj w = (Inr ret, w1)"
      "cur = getattr_status obj ret w1" "transit status via cur"
      "\<forall>m. max_time = Some m \<longrightarrow> now w1 < m" "sleep_time < 0"
      "y = (Inl (IOError ''[Errno 22] Invalid argument''), sampled obj cur w1)"
  | (cont) ret w1 cur where "call_update obj w = (Inr ret, w1)"
      "cur = getattr_status obj ret w1" "transit status via cur"
      "\<forall>m. max_time = Some m \<longrightarrow> now w1 < m" "0 \<le> sleep_time"
      "f obj status via max_time sleep_time (slept sleep_time (sampled obj cur w1)) = Some y"
proof (cases "call_update obj w")
  case (Pair r w1)
  show ?thesis
  proof (cases r)
    case (Inl e)
    with Pair body have "y = (Inl e, w1)" by simp
    with Pair Inl show ?thesis using raised by simp
  next
    case (Inr ret)
    define cur where "cur = getattr_status obj ret w1"
    note cu = Pair [unfolded Inr]
    have body': "(if cur = status then Some (Inr True, sampled obj cur w1)
              else if (case via of None \<Rightarrow> False | Some vs \<Rightarrow> cur \<notin> set vs)
              then Some (Inl (RuntimeError (''Unexpected status: '' @ status)),
                         emit (unexpected_warning obj status) (sampled obj cur w1))
              else if (case max_time of None \<Rightarrow> False | Some m \<Rightarrow> now (sampled obj cur w1) \<ge> m)
              then Some (Inl (RuntimeError ''Operation timed out''),
                         emit (timeout_warning obj status) (sampled obj cur w1))
              else (case time_sleep sleep_time (sampled obj cur w1) of
                      (Inl e, w3) \<Rightarrow> Some (Inl e, w3)
                    | (Inr u, w3) \<Rightarrow> f obj status via max_time sleep_time w3)) = Some y"
      using body
      unfolding cu prod.case sum.case Let_def cur_def sampled_def logger_def
        unexpected_warning_def timeout_warning_def time_time_def .
    have ns1 [simp]: "now (sampled obj cur w1) = now w1"
      by (simp add: sampled_def logger_def emit_def)
    show ?thesis
    proof (cases "cur = status")
      case True
      with body' have "y = (Inr True, sampled obj status w1)" by simp
      with cu True show ?thesis using target cur_def by simp
    next
      case ns: False
      show ?thesis
      proof (cases "unexpected status via cur")
        case True
        then have "(case via of None \<Rightarrow> False | Some vs \<Rightarrow> cur \<notin> set vs)"
          by (simp add: unexpected_def)
        with body' ns have "y = (Inl (RuntimeError (''Unexpected status: '' @ status)),
                         emit (unexpected_warning obj status) (sampled obj cur w1))" by simp
        with cu True show ?thesis using unexp cur_def by simp
      next
        case False
        with ns have tr: "transit status via cur"
          and nv: "\<not> (case via of None \<Rightarrow> False | Some vs \<Rightarrow> cur \<notin> set vs)"
          by (auto simp: unexpected_def transit_def split: option.splits)
        show ?thesis
        proof (cases "\<exists>m. max_time = Some m \<and> m \<le> now w1")
          case True
          then obtain m where m: "max_time = Some m" "m \<le> now w1" by blast
          then have "(case max_time of None \<Rightarrow> False | Some m \<Rightarrow> now (sampled obj cur w1) \<ge> m)"
            by simp
          with body' ns nv have "y = (Inl (RuntimeError ''Operation timed out''),
                         emit (timeout_warning obj status) (sampled obj cur w1))" by simp
          with cu tr m show ?thesis using timeout cur_def by simp
        next
          case False
          then have ne: "\<forall>m. max_time = Some m \<longrightarrow> now w1 < m" by auto
          then have "\<not> (case max_time of None \<Rightarrow> False | Some m \<Rightarrow> now (sampled obj cur w1) \<ge> m)"
            by (auto split: option.splits)
          with body' ns nv have b3: "(case time_sleep sleep_time (sampled obj cur w1) of
                      (Inl e, w3) \<Rightarrow> Some (Inl e, w3)
                    | (Inr u, w3) \<Rightarrow> f obj status via max_time sleep_time w3) = Some y" by simp
          show ?thesis
          proof (cases "sleep_time < 0")
            case True
            with b3 have "y = (Inl (IOError ''[Errno 22] Invalid argument''), sampled obj cur w1)"
              by (simp add: time_sleep_def)
            with cu tr ne True show ?thesis using sleep_raised cur_def by simp
          next
            case False
            with b3 have "f obj status via max_time sleep_time (slept sleep_time (sampled obj cur w1)) = Some y"
              by (simp add: time_sleep_def slept_def)
            with cu tr ne False show ?thesis using cont cur_def by simp
          qed
        qed
      qed
    qed
  qed
qed

subsection \<open>A run that returns, by its samples\<close>

lemma call_update_Inr:
  assumes "call_update obj w = (Inr ret, w1)"
  shows "has_update (objs w obj)"
    and "trace w1 = trace w @ [Called obj Update]"
    and "now w \<le> now w1"
  using assms
  by (auto simp: call_update_def Let_def set_obj_def elapse_def emit_def
        split: if_splits prod.splits upd_outcome.splits)

lemma call_update_Inl:
  assumes "call_update obj w = (Inl e, w1)"
  shows "trace w1 = trace w \<and> \<not> has_update (objs w obj) \<and> e = AttributeError ''update'' \<and> w1 = w
         \<or> trace w1 = trace w @ [Called obj Update] \<and> has_update (objs w obj)"
    and "now w \<le> now w1"
  using assms
  by (auto simp: call_update_def Let_def set_obj_def elapse_def emit_def
        split: if_splits prod.splits upd_outcome.splits)

lemma trace_emit [simp]: "trace (emit e w) = trace w @ [e]"
  by (simp add: emit_def)

lemma now_emit [simp]: "now (emit e w) = now w"
  by (simp add: emit_def)

lemma objs_emit [simp]: "objs (emit e w) = objs w"
  by (simp add: emit_def)

lemma trace_sampled [simp]:
  "trace (sampled obj cur w) = trace w @ [Logged Debug ''...%s is currently %r'' [ObjArg obj, StrArg cur]]"
  by (simp add: sampled_def logger_def)

lemma now_sampled [simp]: "now (sampled obj cur w) = now w"
  by (simp add: sampled_def logger_def)

lemma objs_sampled [simp]: "objs (sampled obj cur w) = objs w"
  by (simp add: sampled_def logger_def)

lemma trace_slept [simp]: "trace (slept st w) = trace w @ [Slept st]"
  by (simp add: slept_def)

lemma now_slept [simp]: "now (slept st w) = now w + st"
  by (simp add: slept_def)

lemma objs_slept [simp]: "objs (slept st w) = objs w"
  by (simp add: slept_def)

lemma trace_after_sample:
  assumes "call_update obj w = (Inr ret, w1)"
  shows "trace (sampled obj cur w1) = trace w @ pass_events obj cur"
  using call_update_Inr(2) [OF assms] by (simp add: pass_events_def)

lemma wfs_loop_run:
  assumes "wfs_loop obj status via mt st w = Some y"
  shows "\<exists>evs. trace (snd y) = trace w @ evs \<and> run_ok obj status via mt (now (snd y)) evs (fst y)"
proof (rule wfs_loop.raw_induct [OF _ assms, where P = "\<lambda>obj status via mt st w y.
         \<exists>evs. trace (snd y) = trace w @ evs \<and> run_ok obj status via mt (now (snd y)) evs (fst y)"],
       goal_cases)
  case (1 f obj status via mt st w y)
  from 1(2) show ?case
  proof (cases rule: wfs_body_cases)
    case (raised e w1)
    from call_update_Inl(1) [OF raised(1)]
    have "trace w1 = trace w @ [] \<or> trace w1 = trace w @ [Called obj Update]" by auto
    then show ?thesis
    proof
      assume "trace w1 = trace w @ []"
      moreover have "run_ok obj status via mt (now w1) [] (Inl e)"
        by (rule run_ok_no_sample) simp_all
      ultimately show ?thesis unfolding raised(2) by (intro exI [of _ "[]"]) simp
    next
      assume "trace w1 = trace w @ [Called obj Update]"
      moreover have "run_ok obj status via mt (now w1) [Called obj Update] (Inl e)"
        by (rule run_ok_no_sample) simp_all
      ultimately show ?thesis unfolding raised(2)
        by (intro exI [of _ "[Called obj Update]"]) simp
    qed
  next
    case (target ret w1)
    have "trace (snd y) = trace w @ pass_events obj status"
      unfolding target(3) using trace_after_sample [OF target(1)] by simp
    moreover have "run_ok obj status via mt (now (snd y)) (pass_events obj status) (fst y)"
      unfolding target(3) using run_ok_target by simp
    ultimately show ?thesis by blast
  next
    case (unexp ret w1 cur)
    have "trace (snd y) = trace w @ pass_events obj cur @ [unexpected_warning obj status]"
      unfolding unexp(4) using trace_after_sample [OF unexp(1)] by simp
    moreover have "run_ok obj status via mt (now (snd y))
        (pass_events obj cur @ [unexpected_warning obj status]) (fst y)"
      unfolding unexp(4) using run_ok_unexpected [OF unexp(3)] by simp
    ultimately show ?thesis by blast
  next
    case (timeout ret w1 cur m)
    have "trace (snd y) = trace w @ pass_events obj cur @ [timeout_warning obj status]"
      unfolding timeout(6) using trace_after_sample [OF timeout(1)] by simp
    moreover have "run_ok obj status via mt (now (snd y))
        (pass_events obj cur @ [timeout_warning obj status]) (fst y)"
      unfolding timeout(6) using run_ok_timeout [OF timeout(3,4), of "now w1"] timeout(5) by simp
    ultimately show ?thesis by blast
  next
    case (sleep_raised ret w1 cur)
    have "trace (snd y) = trace w @ pass_events obj cur"
      unfolding sleep_raised(6) using trace_after_sample [OF sleep_raised(1)] by simp
    moreover have "run_ok obj status via mt (now (snd y)) (pass_events obj cur) (fst y)"
      unfolding sleep_raised(6) using run_ok_sleep_raises [OF sleep_raised(3)] by simp
    ultimately show ?thesis by blast
  next
    case (cont ret w1 cur)
    from 1(1) [OF cont(6)] obtain evs
      where evs: "trace (snd y) = trace (slept st (sampled obj cur w1)) @ evs"
        and ok: "run_ok obj status via mt (now (snd y)) evs (fst y)" by blast
    have "trace (snd y) = trace w @ pass_events obj cur @ Slept st # evs"
      unfolding evs using trace_after_sample [OF cont(1)] by simp
    moreover note run_ok_step [OF cont(3) ok]
    ultimately show ?thesis by blast
  qed
qed

subsection \<open>One pass, forwards; the loop ends when there is a deadline\<close>

lemma wfs_loop_raised:
  assumes "call_update obj w = (Inl e, w1)"
  shows "wfs_loop obj status via mt st w = Some (Inl e, w1)"
  by (subst wfs_loop.simps) (simp add: assms)

lemma wfs_loop_returned:
  assumes cu: "call_update obj w = (Inr ret, w1)" and cur: "cur = getattr_status obj ret w1"
  shows "wfs_loop obj status via mt st w =
     (if cur = status then Some (Inr True, sampled obj cur w1)
      else if unexpected status via cur
      then Some (Inl (RuntimeError (''Unexpected status: '' @ status)),
                 emit (unexpected_warning obj status) (sampled obj cur w1))
      else if (\<exists>m. mt = Some m \<and> m \<le> now w1)
      then Some (Inl (RuntimeError ''Operation timed out''),
                 emit (timeout_warning obj status) (sampled obj cur w1))
      else if st < 0
      then Some (Inl (IOError ''[Errno 22] Invalid argument''), sampled obj cur w1)
      else wfs_loop obj status via mt st (slept st (sampled obj cur w1)))"
proof -
  have unf: "wfs_loop obj status via mt st w =
     (if cur = status then Some (Inr True, sampled obj cur w1)
      else if (case via of None \<Rightarrow> False | Some vs \<Rightarrow> cur \<notin> set vs)
      then Some (Inl (RuntimeError (''Unexpected status: '' @ status)),
                 emit (unexpected_warning obj status) (sampled obj cur w1))
      else if (case mt of None \<Rightarrow> False | Some m \<Rightarrow> now (sampled obj cur w1) \<ge> m)
      then Some (Inl (RuntimeError ''Operation timed out''),
                 emit (timeout_warning obj status) (sampled obj cur w1))
      else (case time_sleep st (sampled obj cur w1) of
              (Inl e, w3) \<Rightarrow> Some (Inl e, w3)
            | (Inr u, w3) \<Rightarrow> wfs_loop obj status via mt st w3))"
    apply (subst wfs_loop.simps)
    unfolding cu prod.case sum.case Let_def cur sampled_def logger_def
      unexpected_warning_def timeout_warning_def time_time_def
    apply (rule refl)
    done
  have c1: "cur \<noteq> status \<Longrightarrow>
      (case via of None \<Rightarrow> False | Some vs \<Rightarrow> cur \<notin> set vs) = unexpected status via cur"
    by (simp add: unexpected_def)
  have c2: "(case mt of None \<Rightarrow> False | Some m \<Rightarrow> now (sampled obj cur w1) \<ge> m)
      = (\<exists>m. mt = Some m \<and> m \<le> now w1)"
    by (cases mt) simp_all
  have c3: "(case time_sleep st (sampled obj cur w1) of
              (Inl e, w3) \<Rightarrow> Some (Inl e, w3)
            | (Inr u, w3) \<Rightarrow> wfs_loop obj status via mt st w3) =
      (if st < 0 then Some (Inl (IOError ''[Errno 22] Invalid argument''), sampled obj cur w1)
       else wfs_loop obj status via mt st (slept st (sampled obj cur w1)))"
    by (simp add: time_sleep_def slept_def)
  show ?thesis
  proof (cases "cur = status")
    case True
    then show ?thesis unfolding unf by simp
  next
    case False
    show ?thesis unfolding unf c2 c3 using False c1 [OF False] by simp
  qed
qed

lemma wfs_loop_terminates:
  assumes "st \<noteq> 0"
  shows "\<exists>y. wfs_loop obj status via (Some m) st w = Some y"
proof (induction "nat (m - now w)" arbitrary: w rule: less_induct)
  case less
  show ?case
  proof (cases "call_update obj w")
    case (Pair r w1)
    show ?thesis
    proof (cases r)
      case (Inl e)
      with Pair show ?thesis using wfs_loop_raised by blast
    next
      case (Inr ret)
      note cu = Pair [unfolded Inr]
      define cur where "cur = getattr_status obj ret w1"
      note unf = wfs_loop_returned [OF cu cur_def, of status via "Some m" st]
      show ?thesis
      proof (cases "cur = status \<or> unexpected status via cur \<or> m \<le> now w1 \<or> st < 0")
        case True
        then show ?thesis unfolding unf by auto
      next
        case False
        then have eq: "wfs_loop obj status via (Some m) st w =
            wfs_loop obj status via (Some m) st (slept st (sampled obj cur w1))"
          unfolding unf by simp
        from False assms have "0 < st" "now w1 < m" by auto
        moreover have "now w \<le> now w1" by (rule call_update_Inr(3) [OF cu])
        ultimately have "nat (m - now (slept st (sampled obj cur w1))) < nat (m - now w)"
          by simp
        from less [OF this] show ?thesis unfolding eq .
      qed
    qed
  qed
qed

subsection \<open>The shape of the trace of a run\<close>

lemma polls_append: "polls (xs @ ys) = polls xs @ polls ys"
  by (simp add: polls_def)

lemma polls_Nil [simp]: "polls [] = []"
  by (simp add: polls_def)

lemma polls_pass [simp]: "polls (pass_events obj cur) = pass_events obj cur"
  by (simp add: polls_def pass_events_def)

lemma polls_other [simp]:
  "polls [Slept st] = []" "polls [timeout_warning obj status] = []"
  "polls [unexpected_warning obj status] = []" "polls [Called r m] = [Called r m]"
  by (simp_all add: polls_def timeout_warning_def unexpected_warning_def)

lemma poll_event_simps [simp]:
  "poll_event obj status st (Called obj Update)"
  "poll_event obj status st (Slept st)"
  "poll_event obj status st (timeout_warning obj status)"
  "poll_event obj status st (unexpected_warning obj status)"
  "list_all (poll_event obj status st) (pass_events obj cur)"
  by (simp_all add: poll_event_def pass_events_def)

lemma poll_shape_pass: "poll_shape obj status st (pass_events obj cur)"
  by (simp add: poll_shape_def)

lemma poll_shape_pass_warn:
  "poll_shape obj status st (pass_events obj cur @ [timeout_warning obj status])"
  "poll_shape obj status st (pass_events obj cur @ [unexpected_warning obj status])"
  by (simp_all add: poll_shape_def polls_append samples_append)

lemma poll_shape_raise:
  "poll_shape obj status st []" "poll_shape obj status st [Called obj Update]"
  by (simp_all add: poll_shape_def)

lemma poll_shape_step:
  assumes "poll_shape obj status st evs"
  shows "poll_shape obj status st (pass_events obj cur @ Slept st # evs)"
proof -
  have "polls (pass_events obj cur @ Slept st # evs) = pass_events obj cur @ polls evs"
    using polls_append [of "pass_events obj cur @ [Slept st]" evs]
    by (simp add: polls_append)
  moreover have "samples (pass_events obj cur @ Slept st # evs) = cur # samples evs"
    by (simp add: samples_append)
  ultimately show ?thesis using assms by (auto simp: poll_shape_def)
qed

lemma wfs_loop_shape:
  assumes "wfs_loop obj status via mt st w = Some y"
  shows "\<exists>evs. trace (snd y) = trace w @ evs \<and> poll_shape obj status st evs"
proof (rule wfs_loop.raw_induct [OF _ assms, where P = "\<lambda>obj status via mt st w y.
         \<exists>evs. trace (snd y) = trace w @ evs \<and> poll_shape obj status st evs"],
       goal_cases)
  case (1 f obj status via mt st w y)
  from 1(2) show ?case
  proof (cases rule: wfs_body_cases)
    case (raised e w1)
    from call_update_Inl(1) [OF raised(1)]
    have "trace w1 = trace w @ [] \<or> trace w1 = trace w @ [Called obj Update]" by auto
    then show ?thesis unfolding raised(2) using poll_shape_raise [of obj status st]
      by (metis snd_conv)
  next
    case (target ret w1)
    have "trace (snd y) = trace w @ pass_events obj status"
      unfolding target(3) using trace_after_sample [OF target(1)] by simp
    then show ?thesis using poll_shape_pass by blast
  next
    case (unexp ret w1 cur)
    have "trace (snd y) = trace w @ pass_events obj cur @ [unexpected_warning obj status]"
      unfolding unexp(4) using trace_after_sample [OF unexp(1)] by simp
    then show ?thesis using poll_shape_pass_warn(2) by blast
  next
    case (timeout ret w1 cur m)
    have "trace (snd y) = trace w @ pass_events obj cur @ [timeout_warning obj status]"
      unfolding timeout(6) using trace_after_sample [OF timeout(1)] by simp
    then show ?thesis using poll_shape_pass_warn(1) by blast
  next
    case (sleep_raised ret w1 cur)
    have "trace (snd y) = trace w @ pass_events obj cur"
      unfolding sleep_raised(6) using trace_after_sample [OF sleep_raised(1)] by simp
    then show ?thesis using poll_shape_pass by blast
  next
    case (cont ret w1 cur)
    from 1(1) [OF cont(6)] obtain evs
      where evs: "trace (snd y) = trace (slept st (sampled obj cur w1)) @ evs"
        and ok: "poll_shape obj status st evs" by blast
    have "trace (snd y) = trace w @ pass_events obj cur @ Slept st # evs"
      unfolding evs using trace_after_sample [OF cont(1)] by simp
    then show ?thesis using poll_shape_step [OF ok] by blast
  qed
qed

subsection \<open>What a run leaves alone\<close>

lemma call_update_frame:
  assumes "call_update obj w = (r, w1)"
  shows "frame (objs w1 x) = frame (objs w x)"
  using assms
  by (auto simp: call_update_def Let_def set_obj_def elapse_def emit_def frame_def
        split: if_splits prod.splits upd_outcome.splits)

lemma wfs_loop_frame:
  assumes "wfs_loop obj status via mt st w = Some y"
  shows "now w \<le> now (snd y) \<and> (\<forall>x. frame (objs (snd y) x) = frame (objs w x))"
proof (rule wfs_loop.raw_induct [OF _ assms, where P = "\<lambda>obj status via mt st w y.
         now w \<le> now (snd y) \<and> (\<forall>x. frame (objs (snd y) x) = frame (objs w x))"],
       goal_cases)
  case (1 f obj status via mt st w y)
  from 1(2) show ?case
  proof (cases rule: wfs_body_cases)
    case (raised e w1)
    then show ?thesis using call_update_Inl(2) call_update_frame by simp
  next
    case (target ret w1)
    then show ?thesis using call_update_Inr(3) call_update_frame by simp
  next
    case (unexp ret w1 cur)
    then show ?thesis using call_update_Inr(3) call_update_frame by simp
  next
    case (timeout ret w1 cur m)
    then show ?thesis using call_update_Inr(3) call_update_frame by simp
  next
    case (sleep_raised ret w1 cur)
    then show ?thesis using call_update_Inr(3) call_update_frame by simp
  next
    case (cont ret w1 cur)
    from 1(1) [OF cont(6)] cont(5) call_update_Inr(3) [OF cont(1)] call_update_frame [OF cont(1)]
    show ?thesis by simp
  qed
qed

subsection \<open>Where the exceptions of a run come from\<close>

lemma same_scripts_refl [simp]: "same_scripts w w"
  by (simp add: same_scripts_def)

lemma same_scripts_trans: "same_scripts w w1 \<Longrightarrow> same_scripts w1 w2 \<Longrightarrow> same_scripts w w2"
  by (simp add: same_scripts_def)

lemma same_scripts_objs: "objs w' = objs w \<Longrightarrow> same_scripts w w'"
  by (simp add: same_scripts_def)

lemma only_exceptions_same_scripts:
  "same_scripts w w' \<Longrightarrow> only_exceptions w \<Longrightarrow> only_exceptions w'"
  by (simp add: same_scripts_def only_exceptions_def)

lemma harmless_Inr [simp]: "harmless w (Inr x) w' = same_scripts w w'"
  by (simp add: harmless_def)

lemma harmless_is_Exception [simp]: "is_Exception e \<Longrightarrow> harmless w (Inl e) w' = same_scripts w w'"
  by (simp add: harmless_def)

lemma harmless_trans:
  assumes "same_scripts w w1" "harmless w1 res w2"
  shows "harmless w res w2"
  using assms only_exceptions_same_scripts [OF assms(1)] same_scripts_trans [OF assms(1)]
  unfolding harmless_def by blast

lemma call_update_harmless:
  assumes "call_update obj w = (res, w1)"
  shows "harmless w res w1"
  using assms
  by (auto simp: call_update_def Let_def set_obj_def elapse_def emit_def harmless_def
        same_scripts_def only_exceptions_def split: if_splits prod.splits upd_outcome.splits)
    (metis snd_conv)

lemma call_terminate_harmless:
  assumes "call_terminate r w = (res, w1)"
  shows "harmless w res w1"
  using assms
  by (auto simp: call_terminate_def Let_def set_obj_def elapse_def emit_def harmless_def
        same_scripts_def only_exceptions_def split: if_splits prod.splits option.splits)
    (metis snd_conv)

lemma call_delete_harmless:
  assumes "call_delete r w = (res, w1)"
  shows "harmless w res w1"
  using assms
  by (auto simp: call_delete_def Let_def set_obj_def elapse_def emit_def harmless_def
        same_scripts_def only_exceptions_def split: if_splits prod.splits option.splits)
    (metis snd_conv)

lemma wfs_loop_harmless:
  assumes "wfs_loop obj status via mt st w = Some y"
  shows "harmless w (fst y) (snd y)"
proof (rule wfs_loop.raw_induct [OF _ assms, where P = "\<lambda>obj status via mt st w y.
         harmless w (fst y) (snd y)"],
       goal_cases)
  case (1 f obj status via mt st w y)
  from 1(2) show ?case
  proof (cases rule: wfs_body_cases)
    case (raised e w1)
    show ?thesis unfolding raised(2) using call_update_harmless [OF raised(1)]
      by (simp add: harmless_def)
  next
    case (target ret w1)
    from call_update_harmless [OF target(1)] have "same_scripts w w1" by simp
    then show ?thesis unfolding target(3) by (simp add: same_scripts_def)
  next
    case (unexp ret w1 cur)
    from call_update_harmless [OF unexp(1)] have "same_scripts w w1" by simp
    then show ?thesis unfolding unexp(4) by (simp add: same_scripts_def)
  next
    case (timeout ret w1 cur m)
    from call_update_harmless [OF timeout(1)] have "same_scripts w w1" by simp
    then show ?thesis unfolding timeout(6) by (simp add: same_scripts_def)
  next
    case (sleep_raised ret w1 cur)
    from call_update_harmless [OF sleep_raised(1)] have "same_scripts w w1" by simp
    then show ?thesis unfolding sleep_raised(6) by (simp add: same_scripts_def)
  next
    case (cont ret w1 cur)
    from call_update_harmless [OF cont(1)] have "same_scripts w w1" by simp
    then have "same_scripts w (slept st (sampled obj cur w1))"
      by (simp add: same_scripts_def)
    with 1(1) [OF cont(6)] show ?thesis by (rule harmless_trans [rotated])
  qed
qed

section \<open>The ledger's exit returns and tries every candidate\<close>

lemma trace_announced [simp]:
  "trace (announced obj status w) =
     trace w @ [Logged Debug ''waiting for %s to reach status %r'' [ObjArg obj, StrArg status]]"
  by (simp add: announced_def logger_def)

lemma now_announced [simp]: "now (announced obj status w) = now w"
  by (simp add: announced_def logger_def)

lemma objs_announced [simp]: "objs (announced obj status w) = objs w"
  by (simp add: announced_def logger_def)

lemma wait_for_status_unfold:
  "wait_for_status obj status via timeout st w =
     wfs_loop obj status via (case timeout of None \<Rightarrow> None | Some t \<Rightarrow> Some (now w + t)) st
       (announced obj status w)"
  by (cases timeout) (simp_all add: wait_for_status_def Let_def announced_def time_time_def logger_def)

lemma attempted_poll:
  "list_all (poll_event obj status st) evs \<Longrightarrow> attempted evs = []"
  by (induction evs)
    (auto simp: poll_event_def timeout_warning_def unexpected_warning_def)

lemma wait_for_status_terminates:
  assumes "st \<noteq> 0"
  shows "\<exists>y. wait_for_status obj status via (Some t) st w = Some y"
  unfolding wait_for_status_unfold using wfs_loop_terminates [OF assms] by simp

lemma wait_for_status_attempted:
  assumes "wait_for_status obj status via timeout st w = Some y"
  shows "\<exists>evs. trace (snd y) = trace w @ evs \<and> attempted evs = []"
proof -
  from wfs_loop_shape [OF assms [unfolded wait_for_status_unfold]]
  obtain evs where "trace (snd y) = trace (announced obj status w) @ evs"
    "poll_shape obj status st evs" by blast
  moreover from this have "attempted evs = []"
    using attempted_poll unfolding poll_shape_def by blast
  ultimately have "trace (snd y) = trace w @
      Logged Debug ''waiting for %s to reach status %r'' [ObjArg obj, StrArg status] # evs"
    "attempted (Logged Debug ''waiting for %s to reach status %r'' [ObjArg obj, StrArg status] # evs) = []"
    by simp_all
  then show ?thesis by blast
qed

lemma call_terminate_trace:
  assumes "call_terminate r w = (res, w1)"
  shows "\<exists>evs. trace w1 = trace w @ evs \<and> attempted evs = []"
  using assms
  by (auto simp: call_terminate_def Let_def set_obj_def elapse_def emit_def
        split: if_splits prod.splits option.splits)

lemma call_delete_trace:
  assumes "call_delete r w = (res, w1)"
  shows "\<exists>evs. trace w1 = trace w @ evs \<and> attempted evs = []"
  using assms
  by (auto simp: call_delete_def Let_def set_obj_def elapse_def emit_def
        split: if_splits prod.splits option.splits)

lemma cleanup_resource_returns:
  "\<exists>res w' evs. cleanup_resource r w = Some (res, w') \<and>
     trace w' = trace w @ cleaning r # evs \<and> attempted evs = []"
proof -
  define w0 where "w0 = logger Debug ''cleaning up %s'' [ObjArg r] w"
  have tr0: "trace w0 = trace w @ [cleaning r]"
    by (simp add: w0_def logger_def cleaning_def)
  define first where "first =
     (if has_terminate (objs w0 r)
      then (case call_terminate r w0 of
              (Inl e, w1) \<Rightarrow> Some (Inl e, w1)
            | (Inr u, w1) \<Rightarrow>
                (case wait_for_status r ''terminated'' None default_timeout default_sleep_time w1 of
                   None \<Rightarrow> None
                 | Some (Inl e, w2) \<Rightarrow> Some (Inl e, w2)
                 | Some (Inr b, w2) \<Rightarrow> Some (Inr (), w2)))
      else Some (Inr (), w0))"
  have cr: "cleanup_resource r w =
     (case first of
        None \<Rightarrow> None
      | Some (Inl e, w3) \<Rightarrow> Some (Inl e, w3)
      | Some (Inr u, w3) \<Rightarrow>
          if has_delete (objs w3 r) then Some (call_delete r w3) else Some (Inr (), w3))"
    unfolding cleanup_resource_def Let_def first_def w0_def ..
  have first: "\<exists>res w3 evs. first = Some (res, w3) \<and> trace w3 = trace w0 @ evs \<and> attempted evs = []"
  proof (cases "has_terminate (objs w0 r)")
    case False
    then show ?thesis by (simp add: first_def)
  next
    case True
    obtain res1 w1 where ct: "call_terminate r w0 = (res1, w1)" by (cases "call_terminate r w0")
    from call_terminate_trace [OF ct] obtain evs1
      where evs1: "trace w1 = trace w0 @ evs1" "attempted evs1 = []" by blast
    show ?thesis
    proof (cases res1)
      case (Inl e)
      with True ct evs1 show ?thesis by (simp add: first_def)
    next
      case (Inr u)
      from wait_for_status_terminates [of default_sleep_time r "''terminated''" None "5 * 60" w1]
      obtain y where y: "wait_for_status r ''terminated'' None default_timeout default_sleep_time w1 = Some y"
        by (auto simp: default_sleep_time_def default_timeout_def)
      from wait_for_status_attempted [OF y] obtain evs2
        where evs2: "trace (snd y) = trace w1 @ evs2" "attempted evs2 = []" by blast
      have "trace (snd y) = trace w0 @ evs1 @ evs2" "attempted (evs1 @ evs2) = []"
        using evs1 evs2 by (simp_all add: attempted_append)
      moreover have "\<exists>res. first = Some (res, snd y)"
        using True ct Inr y by (cases y; cases "fst y") (auto simp: first_def)
      ultimately show ?thesis by blast
    qed
  qed
  then obtain res w3 evs where f: "first = Some (res, w3)"
    and evs: "trace w3 = trace w0 @ evs" "attempted evs = []" by blast
  show ?thesis
  proof (cases res)
    case (Inl e)
    with f cr evs tr0 show ?thesis by simp
  next
    case (Inr u)
    show ?thesis
    proof (cases "has_delete (objs w3 r)")
      case False
      with Inr f cr evs tr0 show ?thesis by simp
    next
      case True
      obtain res4 w4 where cd: "call_delete r w3 = (res4, w4)" by (cases "call_delete r w3")
      from call_delete_trace [OF cd] obtain evs4
        where evs4: "trace w4 = trace w3 @ evs4" "attempted evs4 = []" by blast
      have "trace w4 = trace w @ cleaning r # (evs @ evs4)" "attempted (evs @ evs4) = []"
        using evs evs4 tr0 by (simp_all add: attempted_append)
      moreover have "cleanup_resource r w = Some (res4, w4)"
        using True Inr f cr cd by simp
      ultimately show ?thesis by blast
    qed
  qed
qed

lemma attempted_cleaning [simp]: "attempted (cleaning r # evs) = r # attempted evs"
  by (simp add: cleaning_def)

lemma harmless_Inl: "harmless w (Inl e :: exn + 'a) w' \<Longrightarrow> harmless w (Inl e :: exn + 'b) w'"
  by (simp add: harmless_def)

lemma wait_for_status_harmless:
  assumes "wait_for_status obj status via timeout st w = Some (res, w')"
  shows "harmless w res w'"
proof -
  have "same_scripts w (announced obj status w)"
    by (rule same_scripts_objs) simp
  moreover from wfs_loop_harmless [OF assms [unfolded wait_for_status_unfold]]
  have "harmless (announced obj status w) res w'" by simp
  ultimately show ?thesis by (rule harmless_trans)
qed

lemma cleanup_resource_harmless:
  assumes "cleanup_resource r w = Some (res, w')"
  shows "harmless w res w'"
proof -
  define w0 where "w0 = logger Debug ''cleaning up %s'' [ObjArg r] w"
  have s0: "same_scripts w w0"
    by (rule same_scripts_objs) (simp add: w0_def logger_def)
  define first where "first =
     (if has_terminate (objs w0 r)
      then (case call_terminate r w0 of
              (Inl e, w1) \<Rightarrow> Some (Inl e, w1)
            | (Inr u, w1) \<Rightarrow>
                (case wait_for_status r ''terminated'' None default_timeout default_sleep_time w1 of
                   None \<Rightarrow> None
                 | Some (Inl e, w2) \<Rightarrow> Some (Inl e, w2)
                 | Some (Inr b, w2) \<Rightarrow> Some (Inr (), w2)))
      else Some (Inr (), w0))"
  have cr: "cleanup_resource r w =
     (case first of
        None \<Rightarrow> None
      | Some (Inl e, w3) \<Rightarrow> Some (Inl e, w3)
      | Some (Inr u, w3) \<Rightarrow>
          if has_delete (objs w3 r) then Some (call_delete r w3) else Some (Inr (), w3))"
    unfolding cleanup_resource_def Let_def first_def w0_def ..
  have first: "first = None \<or> (\<exists>res3 w3. first = Some (res3, w3) \<and> harmless w0 res3 w3)"
  proof (cases "has_terminate (objs w0 r)")
    case False
    then show ?thesis by (simp add: first_def)
  next
    case True
    obtain res1 w1 where ct: "call_terminate r w0 = (res1, w1)" by (cases "call_terminate r w0")
    note h1 = call_terminate_harmless [OF ct]
    show ?thesis
    proof (cases res1)
      case (Inl e)
      with True ct h1 show ?thesis by (simp add: first_def)
    next
      case (Inr u)
      with h1 have s1: "same_scripts w0 w1" by simp
      show ?thesis
      proof (cases "wait_for_status r ''terminated'' None default_timeout default_sleep_time w1")
        case None
        with True ct Inr show ?thesis by (simp add: first_def)
      next
        case (Some y)
        obtain res2 w2 where y: "y = (res2, w2)" by (cases y)
        note h2 = wait_for_status_harmless [OF Some [unfolded y]]
        show ?thesis
        proof (cases res2)
          case (Inl e)
          have "harmless w0 (Inl e :: exn + unit) w2"
            using harmless_trans [OF s1 h2 [unfolded Inl]] by (rule harmless_Inl)
          moreover have "first = Some (Inl e, w2)"
            using True ct \<open>res1 = Inr u\<close> Some y Inl by (simp add: first_def)
          ultimately show ?thesis by blast
        next
          case (Inr b)
          with h2 have "same_scripts w1 w2" by simp
          with s1 have "harmless w0 (Inr () :: exn + unit) w2"
            using same_scripts_trans by simp
          moreover have "first = Some (Inr (), w2)"
            using True ct \<open>res1 = Inr u\<close> Some y Inr by (simp add: first_def)
          ultimately show ?thesis by blast
        qed
      qed
    qed
  qed
  from assms cr have "first \<noteq> None" by (cases first) auto
  with first obtain res3 w3 where f: "first = Some (res3, w3)" and h3: "harmless w0 res3 w3"
    by blast
  show ?thesis
  proof (cases res3)
    case (Inl e)
    with assms cr f have eq: "res = Inl e" "w' = w3" by simp_all
    from h3 [unfolded Inl] have "harmless w (Inl e :: exn + unit) w3"
      by (rule harmless_trans [OF s0])
    then show ?thesis unfolding eq .
  next
    case (Inr u)
    with h3 have s3: "same_scripts w0 w3" by simp
    show ?thesis
    proof (cases "has_delete (objs w3 r)")
      case False
      with assms cr f Inr have "res = Inr ()" "w' = w3" by simp_all
      then show ?thesis using same_scripts_trans [OF s0 s3] by simp
    next
      case True
      with assms cr f Inr have "call_delete r w3 = (res, w')" by simp
      from call_delete_harmless [OF this] show ?thesis
        by (rule harmless_trans [OF same_scripts_trans [OF s0 s3]])
    qed
  qed
qed

text \<open>
  The loop of \<open>__exit__\<close> always ends.  It has started the teardown of the first so many
  resources of its list, of all of them when it ends without an exception; an exception
  that it lets through is none of \<open>Exception\<close>; and it lets none through when the scripts
  raise nothing else.
\<close>

lemma cleanup_all_outcome:
  "\<exists>res w' evs n. cleanup_all rs w = Some (res, w') \<and> trace w' = trace w @ evs \<and>
     attempted evs = take n rs \<and> (res = Inr () \<longrightarrow> attempted evs = rs) \<and>
     (\<forall>e. res = Inl e \<longrightarrow> \<not> is_Exception e) \<and>
     (only_exceptions w \<longrightarrow> res = Inr ()) \<and> (rs \<noteq> [] \<longrightarrow> 0 < n)"
proof (induction rs arbitrary: w)
  case Nil
  show ?case by simp
next
  case (Cons r rs)
  from cleanup_resource_returns [of r w] obtain res1 w1 evs1
    where cr: "cleanup_resource r w = Some (res1, w1)"
      and evs1: "trace w1 = trace w @ cleaning r # evs1" "attempted evs1 = []" by blast
  note h = cleanup_resource_harmless [OF cr]
  then have ss: "same_scripts w w1" by (simp add: harmless_def)
  show ?case
  proof (cases "\<exists>e. res1 = Inl e \<and> \<not> is_Exception e")
    case True
    then obtain e where e: "res1 = Inl e" "\<not> is_Exception e" by blast
    have ca: "cleanup_all (r # rs) w = Some (Inl e, w1)"
      using cr e by simp
    have "attempted (cleaning r # evs1) = take 1 (r # rs)"
      using evs1 by simp
    moreover have "\<not> only_exceptions w"
      using h e by (auto simp: harmless_def)
    ultimately show ?thesis
      unfolding ca using evs1(1) e(2)
      by (intro exI [of _ "Inl e"] exI [of _ w1] exI [of _ "cleaning r # evs1"] exI [of _ 1])
        simp
  next
    case False
    define w2 where "w2 = (case res1 of
        Inl e \<Rightarrow> logger Exception ''failed to cleanup %s'' [ObjArg r] w1 | Inr u \<Rightarrow> w1)"
    have ca: "cleanup_all (r # rs) w = cleanup_all rs w2"
      using cr False by (cases res1) (simp_all add: w2_def)
    have "\<exists>evs2. trace w2 = trace w @ cleaning r # evs2 \<and> attempted evs2 = []"
    proof (cases res1)
      case (Inl e)
      then have "trace w2 = trace w @ cleaning r #
          (evs1 @ [Logged Exception ''failed to cleanup %s'' [ObjArg r]])"
        using evs1 by (simp add: w2_def logger_def)
      moreover have "attempted (evs1 @ [Logged Exception ''failed to cleanup %s'' [ObjArg r]]) = []"
        using evs1 by (simp add: attempted_append)
      ultimately show ?thesis by blast
    next
      case (Inr u)
      then show ?thesis using evs1 by (simp add: w2_def)
    qed
    then obtain evs2 where evs2: "trace w2 = trace w @ cleaning r # evs2" "attempted evs2 = []"
      by blast
    have "same_scripts w1 w2"
      by (rule same_scripts_objs) (cases res1; simp add: w2_def logger_def)
    with ss have ss2: "same_scripts w w2" by (rule same_scripts_trans)
    from Cons [of w2] obtain res w' evs n
      where rest: "cleanup_all rs w2 = Some (res, w')" "trace w' = trace w2 @ evs"
        "attempted evs = take n rs" "res = Inr () \<longrightarrow> attempted evs = rs"
        "\<forall>e. res = Inl e \<longrightarrow> \<not> is_Exception e" "only_exceptions w2 \<longrightarrow> res = Inr ()"
      by blast
    have "trace w' = trace w @ (cleaning r # evs2 @ evs)"
      "attempted (cleaning r # evs2 @ evs) = take (Suc n) (r # rs)"
      "res = Inr () \<longrightarrow> attempted (cleaning r # evs2 @ evs) = r # rs"
      using rest evs2 by (simp_all add: attempted_append)
    moreover have "only_exceptions w \<longrightarrow> res = Inr ()"
      using rest(6) only_exceptions_same_scripts [OF ss2] by blast
    ultimately show ?thesis
      unfolding ca using rest(1,5)
      by (intro exI [of _ res] exI [of _ w'] exI [of _ "cleaning r # evs2 @ evs"]
            exI [of _ "Suc n"]) simp
  qed
qed

lemma cleanup_all_returns:
  assumes "only_exceptions w"
  shows "\<exists>w' evs. cleanup_all rs w = Some (Inr (), w') \<and> trace w' = trace w @ evs \<and>
     attempted evs = rs"
  using cleanup_all_outcome [of rs w] assms by auto

section \<open>The order of the teardown\<close>

lemma new_events_append: "trace w' = trace w @ evs \<Longrightarrow> new_events w w' = evs"
  by (simp add: new_events_def)

lemma sortkey_cases:
  "sortkey_for_cleanup_ordering ob =
     (case cls ob of Instance \<Rightarrow> 0 | Volume \<Rightarrow> 1 | Snapshot \<Rightarrow> 2 | OtherClass \<Rightarrow> 3)"
  by (cases "cls ob")
    (simp_all add: sortkey_for_cleanup_ordering_def ordered_classes_def isinstance_def)

lemma insort_key_between:
  fixes f :: "'a \<Rightarrow> nat"
  assumes "\<forall>y\<in>set ys. f y < f a" "\<forall>z\<in>set zs. f a \<le> f z"
  shows "insort_key f a (ys @ zs) = ys @ a # zs"
  using assms by (induction ys) (auto simp: insort_is_Cons)

lemma sort_key_four:
  fixes f :: "'a \<Rightarrow> nat"
  assumes "\<And>x. x \<in> set xs \<Longrightarrow> f x \<le> 3"
  shows "sort_key f xs =
     [x \<leftarrow> xs. f x = 0] @ [x \<leftarrow> xs. f x = 1] @ [x \<leftarrow> xs. f x = 2] @ [x \<leftarrow> xs. f x = 3]"
  using assms
proof (induction xs)
  case Nil
  show ?case by simp
next
  case (Cons a xs)
  have k: "f a = 0 \<or> f a = 1 \<or> f a = 2 \<or> f a = 3"
    using Cons.prems [of a] by auto
  have ih: "sort_key f xs =
     [x \<leftarrow> xs. f x = 0] @ [x \<leftarrow> xs. f x = 1] @ [x \<leftarrow> xs. f x = 2] @ [x \<leftarrow> xs. f x = 3]"
    using Cons by simp
  note ins = insort_key_between [of _ f a]
  from k show ?case
  proof (elim disjE)
    assume a: "f a = 0"
    have "insort_key f a ([] @ sort_key f xs) = [] @ a # sort_key f xs"
      by (rule ins) (auto simp: a)
    then show ?thesis by (simp add: ih a)
  next
    assume a: "f a = 1"
    have "insort_key f a ([x \<leftarrow> xs. f x = 0] @ ([x \<leftarrow> xs. f x = 1] @ [x \<leftarrow> xs. f x = 2] @ [x \<leftarrow> xs. f x = 3]))
        = [x \<leftarrow> xs. f x = 0] @ a # ([x \<leftarrow> xs. f x = 1] @ [x \<leftarrow> xs. f x = 2] @ [x \<leftarrow> xs. f x = 3])"
      by (rule ins) (auto simp: a)
    then show ?thesis by (simp add: ih a)
  next
    assume a: "f a = 2"
    have "insort_key f a (([x \<leftarrow> xs. f x = 0] @ [x \<leftarrow> xs. f x = 1]) @ ([x \<leftarrow> xs. f x = 2] @ [x \<leftarrow> xs. f x = 3]))
        = ([x \<leftarrow> xs. f x = 0] @ [x \<leftarrow> xs. f x = 1]) @ a # ([x \<leftarrow> xs. f x = 2] @ [x \<leftarrow> xs. f x = 3])"
      by (rule ins) (auto simp: a)
    then show ?thesis by (simp add: ih a)
  next
    assume a: "f a = 3"
    have "insort_key f a (([x \<leftarrow> xs. f x = 0] @ [x \<leftarrow> xs. f x = 1] @ [x \<leftarrow> xs. f x = 2]) @ [x \<leftarrow> xs. f x = 3])
        = ([x \<leftarrow> xs. f x = 0] @ [x \<leftarrow> xs. f x = 1] @ [x \<leftarrow> xs. f x = 2]) @ a # [x \<leftarrow> xs. f x = 3]"
      by (rule ins) (auto simp: a)
    then show ?thesis by (simp add: ih a)
  qed
qed

lemma exit_ctx_outcome:
  "\<exists>res w' n. exit_ctx self et ev tb w = Some (res, w') \<and>
     attempted (new_events w w') =
       take n (sort_key (\<lambda>r. sortkey_for_cleanup_ordering (objs w r)) (to_cleanup self et ev tb)) \<and>
     (res = Inr () \<longrightarrow>
        attempted (new_events w w') =
          sort_key (\<lambda>r. sortkey_for_cleanup_ordering (objs w r)) (to_cleanup self et ev tb)) \<and>
     (\<forall>e. res = Inl e \<longrightarrow> \<not> is_Exception e) \<and>
     (only_exceptions w \<longrightarrow> res = Inr ()) \<and>
     (to_cleanup self et ev tb \<noteq> [] \<longrightarrow> 0 < n)"
proof -
  let ?rs = "sort_key (\<lambda>r. sortkey_for_cleanup_ordering (objs w r)) (to_cleanup self et ev tb)"
  from cleanup_all_outcome [of ?rs w] obtain res w' evs n
    where c: "cleanup_all ?rs w = Some (res, w')" "trace w' = trace w @ evs"
      "attempted evs = take n ?rs" "res = Inr () \<longrightarrow> attempted evs = ?rs"
      "\<forall>e. res = Inl e \<longrightarrow> \<not> is_Exception e" "only_exceptions w \<longrightarrow> res = Inr ()"
      "?rs \<noteq> [] \<longrightarrow> 0 < n"
    by blast
  from c(2) have "new_events w w' = evs" by (rule new_events_append)
  moreover have "?rs \<noteq> [] \<longleftrightarrow> to_cleanup self et ev tb \<noteq> []"
    by (metis length_sort length_0_conv)
  ultimately show ?thesis using c unfolding exit_ctx_def by blast
qed

lemma exit_ctx_single:
  assumes "to_cleanup self et ev tb = [r]"
  shows "\<exists>res w'. exit_ctx self et ev tb w = Some (res, w') \<and> attempted (new_events w w') = [r]"
proof -
  from exit_ctx_outcome [of self et ev tb w] obtain res w' n
    where c: "exit_ctx self et ev tb w = Some (res, w')"
      "attempted (new_events w w') =
         take n (sort_key (\<lambda>r. sortkey_for_cleanup_ordering (objs w r)) (to_cleanup self et ev tb))"
      "to_cleanup self et ev tb \<noteq> [] \<longrightarrow> 0 < n"
    by blast
  from c(3) assms obtain k where "n = Suc k" by (cases n) auto
  with c(2) assms have "attempted (new_events w w') = [r]" by simp
  with c(1) show ?thesis by blast
qed

lemma exit_ctx_none:
  assumes "to_cleanup self et ev tb = []"
  shows "exit_ctx self et ev tb w = Some (Inr (), w) \<and> attempted (new_events w w) = []"
  using assms by (simp add: exit_ctx_def new_events_def)

lemma exit_ctx_returns:
  assumes "only_exceptions w"
  shows "\<exists>w'. exit_ctx self et ev tb w = Some (Inr (), w') \<and>
     attempted (new_events w w') =
       sort_key (\<lambda>r. sortkey_for_cleanup_ordering (objs w r)) (to_cleanup self et ev tb)"
  using exit_ctx_outcome [of self et ev tb w] assms by auto

lemma teardown_order:
  "sort_key (\<lambda>r. sortkey_for_cleanup_ordering (objs w r)) rs =
     [r \<leftarrow> rs. cls (objs w r) = Instance] @ [r \<leftarrow> rs. cls (objs w r) = Volume] @
     [r \<leftarrow> rs. cls (objs w r) = Snapshot] @ [r \<leftarrow> rs. cls (objs w r) = OtherClass]"
proof -
  have key: "\<And>r. sortkey_for_cleanup_ordering (objs w r) \<le> 3"
    by (simp add: sortkey_cases split: ec2_class.splits)
  have eqs: "\<And>r. sortkey_for_cleanup_ordering (objs w r) = 0 \<longleftrightarrow> cls (objs w r) = Instance"
    "\<And>r. sortkey_for_cleanup_ordering (objs w r) = 1 \<longleftrightarrow> cls (objs w r) = Volume"
    "\<And>r. sortkey_for_cleanup_ordering (objs w r) = 2 \<longleftrightarrow> cls (objs w r) = Snapshot"
    "\<And>r. sortkey_for_cleanup_ordering (objs w r) = 3 \<longleftrightarrow> cls (objs w r) = OtherClass"
    by (simp_all add: sortkey_cases split: ec2_class.splits)
  show ?thesis
    using sort_key_four [of rs "\<lambda>r. sortkey_for_cleanup_ordering (objs w r)", OF key]
    unfolding eqs .
qed

lemmas example_defs = example_world_def example_objs_def example_obj_def example_ledger_def
  add_def init_def

lemmas prim_defs = call_update_def logger_def emit_def time_time_def time_sleep_def
  elapse_def set_obj_def getattr_status_def call_terminate_def call_delete_def socket_connect_def

lemma script_of_returns: "snd (script_of ss d k) \<noteq> UpdRaises e"
  by (induction ss d k rule: script_of.induct) simp_all

lemma only_exceptions_example: "only_exceptions example_world"
  by (auto simp: only_exceptions_def example_defs)

lemma example_exit:
  "\<exists>w'. exit_ctx example_ledger None None None example_world = Some (Inr (), w') \<and>
     new_events example_world w' =
       [Logged Debug ''cleaning up %s'' [ObjArg 4], Called 4 Terminate,
        Logged Exception ''failed to cleanup %s'' [ObjArg 4],
        Logged Debug ''cleaning up %s'' [ObjArg 2], Called 2 Terminate,
        Logged Debug ''waiting for %s to reach status %r'' [ObjArg 2, StrArg ''terminated''],
        Called 2 Update,
        Logged Debug ''...%s is currently %r'' [ObjArg 2, StrArg ''terminated''],
        Logged Debug ''cleaning up %s'' [ObjArg 1], Called 1 Delete,
        Logged Debug ''cleaning up %s'' [ObjArg 0], Called 0 Delete,
        Logged Debug ''cleaning up %s'' [ObjArg 3]]"
  by (simp add: example_defs exit_ctx_def to_cleanup_def sortkey_cases cleanup_resource_def
        prim_defs wait_for_status_def wfs_loop.simps default_timeout_def default_sleep_time_def
        Let_def new_events_def)

text \<open>
  C1.  Whatever the ledger holds and however the scope ended, \<open>__exit__\<close> ends and the
  teardowns it has started follow this order: the instances, then the volumes, then the
  snapshots, then the resources of no class of the table, each group in the order of
  registration.  It has started all of them when it returns, which it does whenever the
  outside world raises nothing but subclasses of \<open>Exception\<close>; otherwise it has started
  the first so many of that order.  The sort key is the position of the class in the
  table, and the length of the table, 3, for a resource of none of its classes.
\<close>

theorem exit_teardown_order:
  "(only_exceptions w \<longrightarrow>
      (\<exists>w'. exit_ctx self exc_typ exc_val exc_tb w = Some (Inr (), w') \<and>
         attempted (new_events w w') =
           [r \<leftarrow> to_cleanup self exc_typ exc_val exc_tb. cls (objs w r) = Instance] @
           [r \<leftarrow> to_cleanup self exc_typ exc_val exc_tb. cls (objs w r) = Volume] @
           [r \<leftarrow> to_cleanup self exc_typ exc_val exc_tb. cls (objs w r) = Snapshot] @
           [r \<leftarrow> to_cleanup self exc_typ exc_val exc_tb. cls (objs w r) = OtherClass])) \<and>
   (\<exists>res w' n. exit_ctx self exc_typ exc_val exc_tb w = Some (res, w') \<and>
      attempted (new_events w w') =
        take n
          ([r \<leftarrow> to_cleanup self exc_typ exc_val exc_tb. cls (objs w r) = Instance] @
           [r \<leftarrow> to_cleanup self exc_typ exc_val exc_tb. cls (objs w r) = Volume] @
           [r \<leftarrow> to_cleanup self exc_typ exc_val exc_tb. cls (objs w r) = Snapshot] @
           [r \<leftarrow> to_cleanup self exc_typ exc_val exc_tb. cls (objs w r) = OtherClass]) \<and>
      (res = Inr () \<longrightarrow>
         attempted (new_events w w') =
           [r \<leftarrow> to_cleanup self exc_typ exc_val exc_tb. cls (objs w r) = Instance] @
           [r \<leftarrow> to_cleanup self exc_typ exc_val exc_tb. cls (objs w r) = Volume] @
           [r \<leftarrow> to_cleanup self exc_typ exc_val exc_tb. cls (objs w r) = Snapshot] @
           [r \<leftarrow> to_cleanup self exc_typ exc_val exc_tb. cls (objs w r) = OtherClass])) \<and>
   sortkey_for_cleanup_ordering ob =
     (case cls ob of Instance \<Rightarrow> 0 | Volume \<Rightarrow> 1 | Snapshot \<Rightarrow> 2
      | OtherClass \<Rightarrow> length ordered_classes) \<and>
   length ordered_classes = 3"
proof (intro conjI impI)
  assume "only_exceptions w"
  from exit_ctx_returns [OF this, of self exc_typ exc_val exc_tb]
  show "\<exists>w'. exit_ctx self exc_typ exc_val exc_tb w = Some (Inr (), w') \<and>
      attempted (new_events w w') =
        [r \<leftarrow> to_cleanup self exc_typ exc_val exc_tb. cls (objs w r) = Instance] @
        [r \<leftarrow> to_cleanup self exc_typ exc_val exc_tb. cls (objs w r) = Volume] @
        [r \<leftarrow> to_cleanup self exc_typ exc_val exc_tb. cls (objs w r) = Snapshot] @
        [r \<leftarrow> to_cleanup self exc_typ exc_val exc_tb. cls (objs w r) = OtherClass]"
    unfolding teardown_order .
next
  from exit_ctx_outcome [of self exc_typ exc_val exc_tb w]
  show "\<exists>res w' n. exit_ctx self exc_typ exc_val exc_tb w = Some (res, w') \<and>
      attempted (new_events w w') =
        take n
          ([r \<leftarrow> to_cleanup self exc_typ exc_val exc_tb. cls (objs w r) = Instance] @
           [r \<leftarrow> to_cleanup self exc_typ exc_val exc_tb. cls (objs w r) = Volume] @
           [r \<leftarrow> to_cleanup self exc_typ exc_val exc_tb. cls (objs w r) = Snapshot] @
           [r \<leftarrow> to_cleanup self exc_typ exc_val exc_tb. cls (objs w r) = OtherClass]) \<and>
      (res = Inr () \<longrightarrow>
         attempted (new_events w w') =
           [r \<leftarrow> to_cleanup self exc_typ exc_val exc_tb. cls (objs w r) = Instance] @
           [r \<leftarrow> to_cleanup self exc_typ exc_val exc_tb. cls (objs w r) = Volume] @
           [r \<leftarrow> to_cleanup self exc_typ exc_val exc_tb. cls (objs w r) = Snapshot] @
           [r \<leftarrow> to_cleanup self exc_typ exc_val exc_tb. cls (objs w r) = OtherClass])"
    unfolding teardown_order by blast
next
  show "sortkey_for_cleanup_ordering ob =
     (case cls ob of Instance \<Rightarrow> 0 | Volume \<Rightarrow> 1 | Snapshot \<Rightarrow> 2
      | OtherClass \<Rightarrow> length ordered_classes)"
    by (cases "cls ob") (simp_all add: sortkey_cases ordered_classes_def)
  show "length ordered_classes = 3"
    by (simp add: ordered_classes_def)
qed

theorem exit_teardown_order_witness:
  "\<exists>w'. exit_ctx example_ledger None None None example_world = Some (Inr (), w') \<and>
      attempted (new_events example_world w') = [4, 2, 1, 0, 3]"
  using exit_teardown_order [of example_world example_ledger None None None,
      THEN conjunct1, THEN mp, OF only_exceptions_example]
  by (simp add: example_defs to_cleanup_def)

section \<open>The candidates of the teardown, and registration\<close>

lemma exit_ctx_mset:
  assumes "only_exceptions w"
  shows "\<exists>w'. exit_ctx self et ev tb w = Some (Inr (), w') \<and>
     mset (attempted (new_events w w')) = mset (to_cleanup self et ev tb)"
  using exit_ctx_returns [OF assms, of self et ev tb] by auto

lemma exit_ctx_submset:
  "\<exists>res w'. exit_ctx self et ev tb w = Some (res, w') \<and>
     mset (attempted (new_events w w')) \<subseteq># mset (to_cleanup self et ev tb) \<and>
     (res = Inr () \<longrightarrow> mset (attempted (new_events w w')) = mset (to_cleanup self et ev tb))"
proof -
  let ?rs = "sort_key (\<lambda>r. sortkey_for_cleanup_ordering (objs w r)) (to_cleanup self et ev tb)"
  from exit_ctx_outcome [of self et ev tb w] obtain res w' n
    where c: "exit_ctx self et ev tb w = Some (res, w')"
      "attempted (new_events w w') = take n ?rs"
      "res = Inr () \<longrightarrow> attempted (new_events w w') = ?rs" by blast
  have "mset (take n ?rs) \<subseteq># mset (take n ?rs) + mset (drop n ?rs)"
    by (rule mset_subset_eq_add_left)
  then have "mset (take n ?rs) \<subseteq># mset ?rs"
    by (simp only: mset_append [symmetric] append_take_drop_id)
  then have "mset (attempted (new_events w w')) \<subseteq># mset (to_cleanup self et ev tb)"
    unfolding c(2) by simp
  moreover have "res = Inr () \<longrightarrow>
      mset (attempted (new_events w w')) = mset (to_cleanup self et ev tb)"
    using c(3) by auto
  ultimately show ?thesis using c(1) by blast
qed

lemma to_cleanup_success:
  "to_cleanup self None None None = [fst e. e \<leftarrow> resources self, \<not> fst (snd e)]"
  by (simp add: to_cleanup_def)

lemma to_cleanup_failure:
  "et \<noteq> None \<or> ev \<noteq> None \<or> tb \<noteq> None \<Longrightarrow>
   to_cleanup self et ev tb = [fst e. e \<leftarrow> resources self, \<not> snd (snd e)]"
  by (auto simp: to_cleanup_def)

lemma count_candidates:
  "count (mset [fst e. e \<leftarrow> es, P e]) r = length [e \<leftarrow> es. fst e = r \<and> P e]"
  by (induction es) auto

text \<open>
  C2.  The candidates of \<open>__exit__\<close> are the resources of the entries whose
  \<open>keep_on_success\<close> flag is false when the three arguments are all \<open>None\<close>, and of the
  entries whose \<open>keep_on_error\<close> flag is false when one of them is not.  \<open>__exit__\<close> always
  ends; it starts no teardown but of a candidate, once at most for each entry, and of all
  of them when it returns.  A ledger holding the one entry \<open>add(r, keep_on_success=True)\<close>
  tears nothing down on success and \<open>r\<close> on failure; with \<open>add(r, keep_on_error=True)\<close> it
  is the other way round.  When the outside world raises nothing but subclasses of
  \<open>Exception\<close>, \<open>__exit__\<close> returns, and the resources whose teardown it started are, up
  to the order, the candidates: a resource is torn down once for each such entry naming
  it.
\<close>

theorem exit_candidates:
  "to_cleanup self None None None = [fst e. e \<leftarrow> resources self, \<not> fst (snd e)] \<and>
   (exc_typ \<noteq> None \<or> exc_val \<noteq> None \<or> exc_tb \<noteq> None \<longrightarrow>
      to_cleanup self exc_typ exc_val exc_tb = [fst e. e \<leftarrow> resources self, \<not> snd (snd e)]) \<and>
   (\<exists>res w'. exit_ctx self exc_typ exc_val exc_tb w = Some (res, w') \<and>
      mset (attempted (new_events w w')) \<subseteq># mset (to_cleanup self exc_typ exc_val exc_tb) \<and>
      (res = Inr () \<longrightarrow>
         mset (attempted (new_events w w')) = mset (to_cleanup self exc_typ exc_val exc_tb))) \<and>
   (\<exists>w'. exit_ctx (add init r True False) None None None w = Some (Inr (), w') \<and>
      attempted (new_events w w') = []) \<and>
   (\<exists>res w'. exit_ctx (add init r False True) None None None w = Some (res, w') \<and>
      attempted (new_events w w') = [r]) \<and>
   (exc_typ \<noteq> None \<or> exc_val \<noteq> None \<or> exc_tb \<noteq> None \<longrightarrow>
      (\<exists>res w'. exit_ctx (add init r True False) exc_typ exc_val exc_tb w = Some (res, w') \<and>
         attempted (new_events w w') = [r]) \<and>
      (\<exists>w'. exit_ctx (add init r False True) exc_typ exc_val exc_tb w = Some (Inr (), w') \<and>
         attempted (new_events w w') = [])) \<and>
   (only_exceptions w \<longrightarrow>
     (\<exists>w'. exit_ctx self None None None w = Some (Inr (), w') \<and>
        mset (attempted (new_events w w')) = mset [fst e. e \<leftarrow> resources self, \<not> fst (snd e)] \<and>
        count (mset (attempted (new_events w w'))) r =
          length [e \<leftarrow> resources self. fst e = r \<and> \<not> fst (snd e)]) \<and>
     (exc_typ \<noteq> None \<or> exc_val \<noteq> None \<or> exc_tb \<noteq> None \<longrightarrow>
        (\<exists>w'. exit_ctx self exc_typ exc_val exc_tb w = Some (Inr (), w') \<and>
           mset (attempted (new_events w w')) = mset [fst e. e \<leftarrow> resources self, \<not> snd (snd e)] \<and>
           count (mset (attempted (new_events w w'))) r =
             length [e \<leftarrow> resources self. fst e = r \<and> \<not> snd (snd e)]) \<and>
        (\<exists>w'. exit_ctx (add init r True False) exc_typ exc_val exc_tb w = Some (Inr (), w') \<and>
           attempted (new_events w w') = [r]) \<and>
        (\<exists>w'. exit_ctx (add init r False True) exc_typ exc_val exc_tb w = Some (Inr (), w') \<and>
           attempted (new_events w w') = [])) \<and>
     (\<exists>w'. exit_ctx (add init r True False) None None None w = Some (Inr (), w') \<and>
        attempted (new_events w w') = []) \<and>
     (\<exists>w'. exit_ctx (add init r False True) None None None w = Some (Inr (), w') \<and>
        attempted (new_events w w') = [r]))"
proof -
  have sel: "to_cleanup self None None None = [fst e. e \<leftarrow> resources self, \<not> fst (snd e)]"
    by (rule to_cleanup_success)
  have self: "to_cleanup self exc_typ exc_val exc_tb = [fst e. e \<leftarrow> resources self, \<not> snd (snd e)]"
    if "exc_typ \<noteq> None \<or> exc_val \<noteq> None \<or> exc_tb \<noteq> None"
    using that by (rule to_cleanup_failure)
  have sub: "\<exists>res w'. exit_ctx self exc_typ exc_val exc_tb w = Some (res, w') \<and>
      mset (attempted (new_events w w')) \<subseteq># mset (to_cleanup self exc_typ exc_val exc_tb) \<and>
      (res = Inr () \<longrightarrow>
         mset (attempted (new_events w w')) = mset (to_cleanup self exc_typ exc_val exc_tb))"
    by (rule exit_ctx_submset)
  have s1: "\<exists>w'. exit_ctx (add init r True False) None None None w = Some (Inr (), w') \<and>
      attempted (new_events w w') = []"
    using exit_ctx_none [of "add init r True False" None None None w]
    by (simp add: to_cleanup_def add_def init_def)
  have s2: "\<exists>res w'. exit_ctx (add init r False True) None None None w = Some (res, w') \<and>
      attempted (new_events w w') = [r]"
    by (rule exit_ctx_single) (simp add: to_cleanup_def add_def init_def)
  have f1: "\<exists>res w'. exit_ctx (add init r True False) exc_typ exc_val exc_tb w = Some (res, w') \<and>
         attempted (new_events w w') = [r]"
    if f: "exc_typ \<noteq> None \<or> exc_val \<noteq> None \<or> exc_tb \<noteq> None"
    by (rule exit_ctx_single) (simp add: to_cleanup_failure [OF f] add_def init_def)
  have f2: "\<exists>w'. exit_ctx (add init r False True) exc_typ exc_val exc_tb w = Some (Inr (), w') \<and>
         attempted (new_events w w') = []"
    if f: "exc_typ \<noteq> None \<or> exc_val \<noteq> None \<or> exc_tb \<noteq> None"
    using exit_ctx_none [of "add init r False True" exc_typ exc_val exc_tb w]
    by (simp add: to_cleanup_failure [OF f] add_def init_def)
  have old: "(\<exists>w'. exit_ctx self None None None w = Some (Inr (), w') \<and>
        mset (attempted (new_events w w')) = mset [fst e. e \<leftarrow> resources self, \<not> fst (snd e)] \<and>
        count (mset (attempted (new_events w w'))) r =
          length [e \<leftarrow> resources self. fst e = r \<and> \<not> fst (snd e)]) \<and>
     (exc_typ \<noteq> None \<or> exc_val \<noteq> None \<or> exc_tb \<noteq> None \<longrightarrow>
        (\<exists>w'. exit_ctx self exc_typ exc_val exc_tb w = Some (Inr (), w') \<and>
           mset (attempted (new_events w w')) = mset [fst e. e \<leftarrow> resources self, \<not> snd (snd e)] \<and>
           count (mset (attempted (new_events w w'))) r =
             length [e \<leftarrow> resources self. fst e = r \<and> \<not> snd (snd e)]) \<and>
        (\<exists>w'. exit_ctx (add init r True False) exc_typ exc_val exc_tb w = Some (Inr (), w') \<and>
           attempted (new_events w w') = [r]) \<and>
        (\<exists>w'. exit_ctx (add init r False True) exc_typ exc_val exc_tb w = Some (Inr (), w') \<and>
           attempted (new_events w w') = [])) \<and>
     (\<exists>w'. exit_ctx (add init r True False) None None None w = Some (Inr (), w') \<and>
        attempted (new_events w w') = []) \<and>
     (\<exists>w'. exit_ctx (add init r False True) None None None w = Some (Inr (), w') \<and>
        attempted (new_events w w') = [r])"
    if oe: "only_exceptions w"
  proof (intro conjI impI)
    show "\<exists>w'. exit_ctx self None None None w = Some (Inr (), w') \<and>
        mset (attempted (new_events w w')) = mset [fst e. e \<leftarrow> resources self, \<not> fst (snd e)] \<and>
        count (mset (attempted (new_events w w'))) r =
          length [e \<leftarrow> resources self. fst e = r \<and> \<not> fst (snd e)]"
      using exit_ctx_mset [OF oe, of self None None None]
      unfolding to_cleanup_success by (auto simp: count_candidates)
    show "\<exists>w'. exit_ctx (add init r True False) None None None w = Some (Inr (), w') \<and>
        attempted (new_events w w') = []"
      by (rule s1)
    show "\<exists>w'. exit_ctx (add init r False True) None None None w = Some (Inr (), w') \<and>
        attempted (new_events w w') = [r]"
      using exit_ctx_returns [OF oe, of "add init r False True" None None None]
      by (simp add: to_cleanup_def add_def init_def)
    {
      assume f: "exc_typ \<noteq> None \<or> exc_val \<noteq> None \<or> exc_tb \<noteq> None"
      show "\<exists>w'. exit_ctx self exc_typ exc_val exc_tb w = Some (Inr (), w') \<and>
             mset (attempted (new_events w w')) = mset [fst e. e \<leftarrow> resources self, \<not> snd (snd e)] \<and>
             count (mset (attempted (new_events w w'))) r =
               length [e \<leftarrow> resources self. fst e = r \<and> \<not> snd (snd e)]"
        using exit_ctx_mset [OF oe, of self exc_typ exc_val exc_tb]
        unfolding to_cleanup_failure [OF f] by (auto simp: count_candidates)
      show "\<exists>w'. exit_ctx (add init r True False) exc_typ exc_val exc_tb w = Some (Inr (), w') \<and>
             attempted (new_events w w') = [r]"
        using exit_ctx_returns [OF oe, of "add init r True False" exc_typ exc_val exc_tb]
        unfolding to_cleanup_failure [OF f] by (simp add: add_def init_def)
      show "\<exists>w'. exit_ctx (add init r False True) exc_typ exc_val exc_tb w = Some (Inr (), w') \<and>
             attempted (new_events w w') = []"
        by (rule f2 [OF f])
    }
  qed
  from sel self sub s1 s2 f1 f2 old show ?thesis by blast
qed

theorem exit_candidates_witness:
  "(\<exists>w'. exit_ctx (add (add example_ledger 0 True False) 1 False True)
            (Some ''RuntimeError'') (Some (RuntimeError ''boom'')) (Some 0) example_world
          = Some (Inr (), w') \<and>
      mset (attempted (new_events example_world w')) = mset [0, 1, 3, 4, 2, 0] \<and>
      count (mset (attempted (new_events example_world w'))) 1 = 1) \<and>
   (\<exists>w'. exit_ctx (add (add example_ledger 0 True False) 1 False True) None None None example_world
          = Some (Inr (), w') \<and>
      mset (attempted (new_events example_world w')) = mset [0, 1, 3, 4, 2, 1] \<and>
      count (mset (attempted (new_events example_world w'))) 1 = 2)"
  using exit_candidates [where w = example_world
      and self = "add (add example_ledger 0 True False) 1 False True" and r = 1
      and exc_typ = "Some ''RuntimeError''" and exc_val = "Some (RuntimeError ''boom'')"
      and exc_tb = "Some 0",
      THEN conjunct2, THEN conjunct2, THEN conjunct2, THEN conjunct2, THEN conjunct2,
      THEN conjunct2, THEN mp, OF only_exceptions_example]
  by (auto simp add: example_defs)

text \<open>
  C8.  \<open>add\<close> is total and appends exactly the entry it is given after the entries already
  there, which it leaves as they are; a sequence of calls leaves the ledger's entries
  followed by the calls' entries in the order of the calls, duplicates included;
  \<open>__enter__\<close> changes nothing; a resource registered twice is a candidate twice; and it
  is torn down twice when the outside world raises nothing but subclasses of \<open>Exception\<close>.
\<close>

theorem add_appends:
  "resources (add self r ks ke) = resources self @ [(r, ks, ke)] \<and>
   resources (foldl (\<lambda>s (r, ks, ke). add s r ks ke) self calls) = resources self @ calls \<and>
   take (length (resources self)) (resources (foldl (\<lambda>s (r, ks, ke). add s r ks ke) self calls))
     = resources self \<and>
   resources (enter self) = resources self \<and>
   resources (add (add init r False False) r False False) = [(r, False, False), (r, False, False)] \<and>
   to_cleanup (add (add init r False False) r False False) None None None = [r, r] \<and>
   (\<exists>res w' n. exit_ctx (add (add init r False False) r False False) None None None w
                  = Some (res, w') \<and>
      attempted (new_events w w') = take (Suc n) [r, r] \<and>
      (res = Inr () \<longrightarrow> attempted (new_events w w') = [r, r])) \<and>
   (only_exceptions w \<longrightarrow>
      (\<exists>w'. exit_ctx (add (add init r False False) r False False) None None None w
               = Some (Inr (), w') \<and>
         attempted (new_events w w') = [r, r]))"
proof -
  have some: "\<exists>res w' n. exit_ctx (add (add init r False False) r False False) None None None w
                  = Some (res, w') \<and>
      attempted (new_events w w') = take (Suc n) [r, r] \<and>
      (res = Inr () \<longrightarrow> attempted (new_events w w') = [r, r])"
  proof -
    let ?self = "add (add init r False False) r False False"
    have tc: "to_cleanup ?self None None None = [r, r]"
      by (simp add: to_cleanup_def add_def init_def)
    from exit_ctx_outcome [of ?self None None None w] obtain res w' n
      where c: "exit_ctx ?self None None None w = Some (res, w')"
        "attempted (new_events w w') =
           take n (sort_key (\<lambda>r. sortkey_for_cleanup_ordering (objs w r))
                     (to_cleanup ?self None None None))"
        "res = Inr () \<longrightarrow> attempted (new_events w w') =
           sort_key (\<lambda>r. sortkey_for_cleanup_ordering (objs w r)) (to_cleanup ?self None None None)"
        "to_cleanup ?self None None None \<noteq> [] \<longrightarrow> 0 < n"
      by blast
    from c(4) tc obtain k where k: "n = Suc k" by (cases n) auto
    have "attempted (new_events w w') = take (Suc k) [r, r]"
      using c(2) unfolding tc k by simp
    moreover have "res = Inr () \<longrightarrow> attempted (new_events w w') = [r, r]"
      using c(3) unfolding tc by simp
    ultimately show ?thesis using c(1) by blast
  qed
  have fold: "\<And>s. resources (foldl (\<lambda>s (r, ks, ke). add s r ks ke) s calls) = resources s @ calls"
    by (induction calls) (auto simp: add_def)
  have twice: "\<exists>w'. exit_ctx (add (add init r False False) r False False) None None None w
            = Some (Inr (), w') \<and> attempted (new_events w w') = [r, r]"
    if "only_exceptions w"
    using exit_ctx_returns [OF that, of "add (add init r False False) r False False" None None None]
    by (simp add: to_cleanup_def add_def init_def)
  have rest: "resources (add self r ks ke) = resources self @ [(r, ks, ke)]"
    "resources (enter self) = resources self"
    "resources (add (add init r False False) r False False) = [(r, False, False), (r, False, False)]"
    "to_cleanup (add (add init r False False) r False False) None None None = [r, r]"
    by (simp_all add: add_def enter_def init_def to_cleanup_def)
  have tk: "take (length (resources self))
      (resources (foldl (\<lambda>s (r, ks, ke). add s r ks ke) self calls)) = resources self"
    by (simp add: fold)
  from rest fold [of self] tk some twice show ?thesis by blast
qed

theorem add_appends_witness:
  "resources (foldl (\<lambda>s (r, ks, ke). add s r ks ke) init [(7, False, False), (7, False, False), (3, True, False)])
     = [(7, False, False), (7, False, False), (3, True, False)] \<and>
   (\<exists>w'. exit_ctx (add (add init 1 False False) 1 False False) None None None example_world
            = Some (Inr (), w') \<and>
      attempted (new_events example_world w') = [1, 1])"
proof -
  note t = add_appends [of init 1 False False
      "[(7, False, False), (7, False, False), (3, True, False)]" example_world]
  have "resources (foldl (\<lambda>s (r, ks, ke). add s r ks ke) init
        [(7, False, False), (7, False, False), (3, True, False)])
     = [(7, False, False), (7, False, False), (3, True, False)]"
    using t by (simp add: init_def)
  moreover have "\<exists>w'. exit_ctx (add (add init 1 False False) 1 False False) None None None
        example_world = Some (Inr (), w') \<and>
      attempted (new_events example_world w') = [1, 1]"
    using t only_exceptions_example by blast
  ultimately show ?thesis by blast
qed

section \<open>What the ledger's exit catches\<close>





section \<open>The outcomes of a wait\<close>

lemma call_update_observed:
  assumes "has_update (objs w obj)" "observed (objs w obj) 0 = Some s"
  shows "\<exists>ret w1. call_update obj w = (Inr ret, w1) \<and> getattr_status obj ret w1 = s \<and>
           has_update (objs w1 obj) \<and>
           (\<forall>k. observed (objs w1 obj) k = observed (objs w obj) (Suc k))"
proof (cases "on_update (objs w obj) (n_update (objs w obj))")
  case (Pair d out)
  with assms(2) obtain ret attr where out: "out = UpdReturns ret attr"
    and s: "s = (case attr of Some s \<Rightarrow> s | None \<Rightarrow> ret)"
    by (cases out) (auto simp: observed_def)
  show ?thesis
    using assms(1) Pair out s
    by (auto simp: call_update_def Let_def set_obj_def elapse_def emit_def getattr_status_def
          observed_def)
qed

lemma stays_in_transit_step:
  assumes "stays_in_transit obj status via w"
  shows "\<exists>ret w1 cur. call_update obj w = (Inr ret, w1) \<and> cur = getattr_status obj ret w1 \<and>
           transit status via cur \<and>
           (\<forall>st. stays_in_transit obj status via (slept st (sampled obj cur w1)))"
proof -
  from assms obtain s where s: "observed (objs w obj) 0 = Some s" "transit status via s"
    and hu: "has_update (objs w obj)"
    unfolding stays_in_transit_def by blast
  from call_update_observed [OF hu s(1)] obtain ret w1
    where cu: "call_update obj w = (Inr ret, w1)" "getattr_status obj ret w1 = s"
      "has_update (objs w1 obj)" "\<forall>k. observed (objs w1 obj) k = observed (objs w obj) (Suc k)"
    by blast
  have "stays_in_transit obj status via (slept st (sampled obj s w1))" for st
    using assms cu(3,4) unfolding stays_in_transit_def by simp
  with cu s show ?thesis by blast
qed

lemma wfs_loop_stuck_timeout:
  assumes "0 < st"
  shows "stays_in_transit obj status via w \<Longrightarrow>
     \<exists>w'. wfs_loop obj status via (Some m) st w = Some (Inl (RuntimeError ''Operation timed out''), w')
         \<and> last (trace w') = timeout_warning obj status \<and> m \<le> now w'"
proof (induction "nat (m - now w)" arbitrary: w rule: less_induct)
  case less
  from stays_in_transit_step [OF less.prems] obtain ret w1 cur
    where cu: "call_update obj w = (Inr ret, w1)" and cur: "cur = getattr_status obj ret w1"
      and tr: "transit status via cur"
      and nxt: "stays_in_transit obj status via (slept st (sampled obj cur w1))"
    by blast
  have nt: "cur \<noteq> status" "\<not> unexpected status via cur"
    using tr transit_not_unexpected by auto
  note unf = wfs_loop_returned [OF cu cur, of status via "Some m" st]
  show ?case
  proof (cases "m \<le> now w1")
    case True
    then show ?thesis unfolding unf using nt by simp
  next
    case False
    then have eq: "wfs_loop obj status via (Some m) st w =
        wfs_loop obj status via (Some m) st (slept st (sampled obj cur w1))"
      unfolding unf using nt assms by simp
    have "now w \<le> now w1" by (rule call_update_Inr(3) [OF cu])
    with False assms have "nat (m - now (slept st (sampled obj cur w1))) < nat (m - now w)"
      by simp
    from less.hyps [OF this nxt] show ?thesis unfolding eq .
  qed
qed


lemma wait_for_status_run:
  assumes "wait_for_status obj status via timeout st w = Some (res, w')"
  shows "\<exists>evs. new_events w w' =
             Logged Debug ''waiting for %s to reach status %r'' [ObjArg obj, StrArg status] # evs \<and>
           run_ok obj status via (deadline w timeout) (now w') evs res \<and>
           poll_shape obj status st evs"
proof -
  note a = assms [unfolded wait_for_status_unfold, folded deadline_def]
  from wfs_loop_run [OF a] obtain evs
    where evs: "trace w' = trace (announced obj status w) @ evs"
      and ok: "run_ok obj status via (deadline w timeout) (now w') evs res" by auto
  from wfs_loop_shape [OF a] obtain evs'
    where evs': "trace w' = trace (announced obj status w) @ evs'"
      and sh: "poll_shape obj status st evs'" by auto
  from evs evs' have "evs' = evs" by simp
  with evs ok sh show ?thesis by (auto simp: new_events_def)
qed


lemma example_ps:
  "\<exists>w'. wait_for_status 0 ''running'' (Some [''pending'']) default_timeout default_sleep_time
           (poll_world (script_of [''pending'', ''stopped''] ''stopped''))
         = Some (Inl (RuntimeError ''Unexpected status: running''), w') \<and>
        samples (new_events (poll_world (script_of [''pending'', ''stopped''] ''stopped'')) w')
          = [''pending'', ''stopped'']"
  by (simp add: wait_for_status_def wfs_loop.simps poll_world_def example_obj_def prim_defs
        default_timeout_def default_sleep_time_def Let_def new_events_def)


lemma wait_for_status_stuck_timeout:
  assumes "stays_in_transit obj status via w" "0 < st"
  shows "\<exists>w'. wait_for_status obj status via (Some t) st w =
              Some (Inl (RuntimeError ''Operation timed out''), w') \<and>
           now w + t \<le> now w' \<and> last (trace w') = timeout_warning obj status"
proof -
  have "stays_in_transit obj status via (announced obj status w)"
    using assms(1) by (simp add: stays_in_transit_def)
  from wfs_loop_stuck_timeout [OF assms(2) this, of "now w + t"]
  show ?thesis unfolding wait_for_status_unfold by auto
qed




text \<open>
  C10.  When the last status a wait has seen is neither the target nor in the transit set,
  the wait raises an error whose message names the target status, and the warning logged
  last names the target status too; the status that was seen is in neither.  The warning
  is logged in no other case.
\<close>

theorem unexpected_status_names_target:
  "wait_for_status obj status via timeout st w = Some (res, w') \<longrightarrow>
     (samples (new_events w w') \<noteq> [] \<and> unexpected status via (last (samples (new_events w w')))
        \<longrightarrow> res = Inl (RuntimeError (''Unexpected status: '' @ status)) \<and>
            last (trace w') =
              Logged Warn ''...%s has unexpected status %r'' [ObjArg obj, StrArg status] \<and>
            last (samples (new_events w w')) \<noteq> status) \<and>
     (Logged Warn ''...%s has unexpected status %r'' [ObjArg obj, StrArg status]
        \<in> set (new_events w w')
        \<longrightarrow> samples (new_events w w') \<noteq> [] \<and>
            unexpected status via (last (samples (new_events w w'))))"
proof (intro conjI impI)
  assume a: "wait_for_status obj status via timeout st w = Some (res, w')"
  from wait_for_status_run [OF a] obtain evs
    where ne: "new_events w w' =
             Logged Debug ''waiting for %s to reach status %r'' [ObjArg obj, StrArg status] # evs"
      and ok: "run_ok obj status via (deadline w timeout) (now w') evs res" by blast
  have ss: "samples (new_events w w') = samples evs" unfolding ne by simp
  note d = run_okD [OF ok]
  have tr: "trace w' = trace w @ new_events w w'"
    using wait_for_status_attempted [OF a] by (auto simp: new_events_def)
  {
    assume u: "samples (new_events w w') \<noteq> [] \<and>
      unexpected status via (last (samples (new_events w w')))"
    then have u': "samples evs \<noteq> []" "unexpected status via (last (samples evs))"
      unfolding ss by auto
    from d(4) [OF u'] show "res = Inl (RuntimeError (''Unexpected status: '' @ status))"
      by simp
    from u' have "evs \<noteq> []" by auto
    then have "last (trace w') = last evs" unfolding tr ne by simp
    with d(4) [OF u']
    show "last (trace w') =
        Logged Warn ''...%s has unexpected status %r'' [ObjArg obj, StrArg status]"
      by (simp add: unexpected_warning_def)
    from u show "last (samples (new_events w w')) \<noteq> status"
      by (auto simp: unexpected_def)
  }
  {
    assume "Logged Warn ''...%s has unexpected status %r'' [ObjArg obj, StrArg status]
        \<in> set (new_events w w')"
    then have "unexpected_warning obj status \<in> set evs"
      unfolding ne by (simp add: unexpected_warning_def)
    from d(5) [OF this] show "samples (new_events w w') \<noteq> []"
      "unexpected status via (last (samples (new_events w w')))"
      unfolding ss by auto
  }
qed

theorem unexpected_status_names_target_witness:
  "wait_for_status 0 ''running'' (Some [''pending'']) default_timeout default_sleep_time
      (poll_world (script_of [''pending'', ''stopped''] ''stopped'')) =
     Some (Inl (RuntimeError ''Unexpected status: running''),
           snd (the (wait_for_status 0 ''running'' (Some [''pending'']) default_timeout
                       default_sleep_time
                       (poll_world (script_of [''pending'', ''stopped''] ''stopped''))))) \<and>
   last (samples (new_events (poll_world (script_of [''pending'', ''stopped''] ''stopped''))
           (snd (the (wait_for_status 0 ''running'' (Some [''pending'']) default_timeout
                       default_sleep_time
                       (poll_world (script_of [''pending'', ''stopped''] ''stopped''))))))) =
     ''stopped'' \<and>
   last (trace (snd (the (wait_for_status 0 ''running'' (Some [''pending'']) default_timeout
                       default_sleep_time
                       (poll_world (script_of [''pending'', ''stopped''] ''stopped'')))))) =
     Logged Warn ''...%s has unexpected status %r'' [ObjArg 0, StrArg ''running'']"
proof -
  let ?ps = "poll_world (script_of [''pending'', ''stopped''] ''stopped'')"
  let ?w' = "snd (the (wait_for_status 0 ''running'' (Some [''pending'']) default_timeout
                     default_sleep_time ?ps))"
  have h: "wait_for_status 0 ''running'' (Some [''pending'']) default_timeout default_sleep_time ?ps
      = Some (Inl (RuntimeError ''Unexpected status: running''), ?w')"
    using example_ps by auto
  have ss: "samples (new_events ?ps ?w') = [''pending'', ''stopped'']"
    using example_ps by auto
  have u: "samples (new_events ?ps ?w') \<noteq> [] \<and>
      unexpected ''running'' (Some [''pending'']) (last (samples (new_events ?ps ?w')))"
    unfolding ss by (simp add: unexpected_def)
  from unexpected_status_names_target [where obj = 0 and status = "''running''"
      and via = "Some [''pending'']" and timeout = default_timeout and st = default_sleep_time
      and w = ?ps and res = "Inl (RuntimeError ''Unexpected status: running'')" and w' = ?w',
      THEN mp, OF h, THEN conjunct1, THEN mp, OF u]
  have "last (trace ?w') =
     Logged Warn ''...%s has unexpected status %r'' [ObjArg 0, StrArg ''running'']"
    by blast
  with h ss show ?thesis by simp
qed

section \<open>The refresh before every sample\<close>

lemma method_calls_append: "method_calls (xs @ ys) = method_calls xs @ method_calls ys"
  by (simp add: method_calls_def)

lemma method_calls_simps [simp]:
  "method_calls [] = []"
  "method_calls (Called r m # evs) = Called r m # method_calls evs"
  "method_calls (Logged l fmt args # evs) = method_calls evs"
  "method_calls (Slept st # evs) = method_calls evs"
  "method_calls (cleaning r # evs) = method_calls evs"
  by (simp_all add: method_calls_def cleaning_def)

lemma method_calls_polls: "method_calls (polls evs) = method_calls evs"
  by (induction evs) (auto simp: method_calls_def polls_def)

lemma method_calls_passes:
  "method_calls (concat (map (pass_events obj) ss)) = replicate (length ss) (Called obj Update)"
  by (induction ss) (simp_all add: method_calls_append pass_events_def)

lemma poll_shape_calls:
  assumes "poll_shape obj status st evs"
  shows "\<exists>n. method_calls evs = replicate n (Called obj Update) \<and> length (samples evs) \<le> n"
proof -
  from assms have "polls evs = concat (map (pass_events obj) (samples evs)) \<or>
       polls evs = concat (map (pass_events obj) (samples evs)) @ [Called obj Update]"
    by (simp add: poll_shape_def)
  then have "method_calls (polls evs) = replicate (length (samples evs)) (Called obj Update) \<or>
      method_calls (polls evs) = replicate (Suc (length (samples evs))) (Called obj Update)"
    by (auto simp: method_calls_append method_calls_passes replicate_append_same)
  then show ?thesis unfolding method_calls_polls
    by (metis le_refl le_SucI)
qed

lemma wait_for_status_no_update:
  assumes "\<not> has_update (objs w obj)"
  shows "wait_for_status obj status via timeout st w =
     Some (Inl (AttributeError ''update''), announced obj status w)"
proof -
  have "call_update obj (announced obj status w) =
      (Inl (AttributeError ''update''), announced obj status w)"
    using assms by (simp add: call_update_def)
  then show ?thesis unfolding wait_for_status_unfold by (rule wfs_loop_raised)
qed

text \<open>
  C9.  An object without an \<open>update\<close> method makes the wait raise the attribute error,
  before any status is sampled and whether or not it has a \<open>status\<close> attribute.  In a
  wait that returns, the method calls and the status samples alternate: each sample is
  preceded by its own call of \<open>update()\<close> on the object, and nothing else is called; a
  last call without a sample is the one that raised.
\<close>

theorem update_before_every_sample:
  "(\<not> has_update (objs w obj) \<longrightarrow>
      wait_for_status obj status via timeout st w =
        Some (Inl (AttributeError ''update''), announced obj status w) \<and>
      samples (new_events w (announced obj status w)) = []) \<and>
   (wait_for_status obj status via timeout st w = Some (res, w') \<longrightarrow>
      (polls (new_events w w') = concat (map (pass_events obj) (samples (new_events w w'))) \<or>
       polls (new_events w w') =
         concat (map (pass_events obj) (samples (new_events w w'))) @ [Called obj Update]))"
proof (intro conjI impI)
  assume "\<not> has_update (objs w obj)"
  then show "wait_for_status obj status via timeout st w =
        Some (Inl (AttributeError ''update''), announced obj status w)"
    by (rule wait_for_status_no_update)
  show "samples (new_events w (announced obj status w)) = []"
    by (simp add: new_events_def)
next
  assume a: "wait_for_status obj status via timeout st w = Some (res, w')"
  from wait_for_status_run [OF a] obtain evs
    where ne: "new_events w w' =
             Logged Debug ''waiting for %s to reach status %r'' [ObjArg obj, StrArg status] # evs"
      and sh: "poll_shape obj status st evs" by blast
  have "polls (new_events w w') = polls evs" "samples (new_events w w') = samples evs"
    unfolding ne by (simp_all add: polls_def)
  with sh show "polls (new_events w w') = concat (map (pass_events obj) (samples (new_events w w'))) \<or>
       polls (new_events w w') =
         concat (map (pass_events obj) (samples (new_events w w'))) @ [Called obj Update]"
    by (simp add: poll_shape_def)
qed

lemma example_attr:
  "\<exists>w'. wait_for_status 0 ''available'' None default_timeout default_sleep_time attr_world
         = Some (Inr True, w') \<and>
        new_events attr_world w' =
          [Logged Debug ''waiting for %s to reach status %r'' [ObjArg 0, StrArg ''available''],
           Called 0 Update,
           Logged Debug ''...%s is currently %r'' [ObjArg 0, StrArg ''available'']]"
  by (simp add: wait_for_status_def wfs_loop.simps attr_world_def example_obj_def prim_defs
        default_timeout_def default_sleep_time_def Let_def new_events_def)

theorem update_before_every_sample_witness:
  "status_attr (objs attr_world 1) = Some ''available'' \<and>
   wait_for_status 1 ''available'' None default_timeout default_sleep_time attr_world =
     Some (Inl (AttributeError ''update''), announced 1 ''available'' attr_world) \<and>
   status_attr (objs attr_world 0) = Some ''available'' \<and>
   wait_for_status 0 ''available'' None default_timeout default_sleep_time attr_world =
     Some (Inr True, snd (the (wait_for_status 0 ''available'' None default_timeout
                                 default_sleep_time attr_world))) \<and>
   polls (new_events attr_world
            (snd (the (wait_for_status 0 ''available'' None default_timeout
                         default_sleep_time attr_world)))) =
     [Called 0 Update, Logged Debug ''...%s is currently %r'' [ObjArg 0, StrArg ''available'']]"
proof -
  let ?w' = "snd (the (wait_for_status 0 ''available'' None default_timeout
                         default_sleep_time attr_world))"
  have h1: "\<not> has_update (objs attr_world 1)"
    by (simp add: attr_world_def)
  have h2: "wait_for_status 0 ''available'' None default_timeout default_sleep_time attr_world =
     Some (Inr True, ?w')"
    using example_attr by auto
  have ss: "samples (new_events attr_world ?w') = [''available'']"
    using example_attr by auto
  note t1 = update_before_every_sample [where w = attr_world and obj = 1
      and status = "''available''" and via = None and timeout = default_timeout
      and st = default_sleep_time and res = "Inr True" and w' = ?w']
  note t0 = update_before_every_sample [where w = attr_world and obj = 0
      and status = "''available''" and via = None and timeout = default_timeout
      and st = default_sleep_time and res = "Inr True" and w' = ?w']
  have a: "wait_for_status 1 ''available'' None default_timeout default_sleep_time attr_world =
     Some (Inl (AttributeError ''update''), announced 1 ''available'' attr_world)"
    using t1 [THEN conjunct1, THEN mp, OF h1] by (rule conjunct1)
  have "polls (new_events attr_world ?w') = pass_events 0 ''available'' \<or>
      polls (new_events attr_world ?w') = pass_events 0 ''available'' @ [Called 0 Update]"
    using t0 [THEN conjunct2, THEN mp, OF h2] unfolding ss by simp
  moreover have "polls (new_events attr_world ?w') \<noteq> pass_events 0 ''available'' @ [Called 0 Update]"
    using example_attr by (auto simp: polls_def pass_events_def)
  ultimately have b: "polls (new_events attr_world ?w') =
     [Called 0 Update, Logged Debug ''...%s is currently %r'' [ObjArg 0, StrArg ''available'']]"
    by (simp add: pass_events_def)
  have c: "status_attr (objs attr_world 1) = Some ''available''"
    "status_attr (objs attr_world 0) = Some ''available''"
    by (simp_all add: attr_world_def)
  from a b c h2 show ?thesis by blast
qed

section \<open>The teardown of one resource\<close>

lemma has_delete_frame: "has_delete ob = has_delete (frame ob)"
  and has_terminate_frame: "has_terminate ob = has_terminate (frame ob)"
  by (simp_all add: frame_def)

lemma wait_for_status_has_delete:
  assumes "wait_for_status obj status via timeout st w = Some (res, w')"
  shows "has_delete (objs w' x) = has_delete (objs w x)" and "now w \<le> now w'"
proof -
  from wfs_loop_frame [OF assms [unfolded wait_for_status_unfold]]
  have "frame (objs w' x) = frame (objs w x)" "now w \<le> now w'" by simp_all
  then show "has_delete (objs w' x) = has_delete (objs w x)" "now w \<le> now w'"
    using has_delete_frame by metis+
qed

lemma call_terminate_cases:
  assumes "has_terminate (objs w r)" "call_terminate r w = (res, w1)"
  shows "trace w1 = trace w @ [Called r Terminate]"
    and "now w \<le> now w1"
    and "has_delete (objs w1 x) = has_delete (objs w x)"
    and "has_update (objs w1 x) = has_update (objs w x)"
    and "observed (objs w1 x) k = observed (objs w x) k"
    and "res = (case snd (on_terminate (objs w r) (n_terminate (objs w r))) of
                  Some e \<Rightarrow> Inl e | None \<Rightarrow> Inr ())"
  using assms
  by (auto simp: call_terminate_def Let_def set_obj_def elapse_def emit_def observed_def
        split: if_splits prod.splits option.splits)

lemma call_delete_cases:
  assumes "has_delete (objs w r)" "call_delete r w = (res, w1)"
  shows "trace w1 = trace w @ [Called r Delete]"
  using assms
  by (auto simp: call_delete_def Let_def set_obj_def elapse_def emit_def
        split: if_splits prod.splits option.splits)

lemma cleanup_resource_no_terminate:
  assumes "\<not> has_terminate (objs w r)"
  shows "cleanup_resource r w =
     (if has_delete (objs w r)
      then Some (call_delete r (logger Debug ''cleaning up %s'' [ObjArg r] w))
      else Some (Inr (), logger Debug ''cleaning up %s'' [ObjArg r] w))"
  using assms by (simp add: cleanup_resource_def Let_def logger_def)

lemma cleanup_resource_terminate_raises:
  assumes "has_terminate (objs w r)"
    "call_terminate r (logger Debug ''cleaning up %s'' [ObjArg r] w) = (Inl e, w1)"
  shows "cleanup_resource r w = Some (Inl e, w1)"
  using assms by (simp add: cleanup_resource_def Let_def logger_def)

lemma cleanup_resource_terminate_returns:
  assumes "has_terminate (objs w r)"
    "call_terminate r (logger Debug ''cleaning up %s'' [ObjArg r] w) = (Inr u, w1)"
    "wait_for_status r ''terminated'' None default_timeout default_sleep_time w1 = Some (res, w2)"
  shows "cleanup_resource r w =
     (case res of
        Inl e \<Rightarrow> Some (Inl e, w2)
      | Inr b \<Rightarrow> if has_delete (objs w r) then Some (call_delete r w2) else Some (Inr (), w2))"
proof -
  have "has_delete (objs w2 r) = has_delete (objs w r)"
    using wait_for_status_has_delete(1) [OF assms(3)]
      call_terminate_cases(3) [OF _ assms(2)] assms(1)
    by (simp add: logger_def)
  then show ?thesis
    using assms by (cases res) (simp_all add: cleanup_resource_def Let_def logger_def)
qed

lemma cleanup_resource_terminate:
  assumes ht: "has_terminate (objs w r)"
  shows "\<exists>res w' n. cleanup_resource r w = Some (res, w') \<and>
     method_calls (new_events w w') =
       Called r Terminate # replicate n (Called r Update) @
       (if has_delete (objs w r) \<and> samples (new_events w w') \<noteq> [] \<and>
           last (samples (new_events w w')) = ''terminated''
        then [Called r Delete] else []) \<and>
     length (samples (new_events w w')) \<le> n \<and>
     (res = Inr () \<longrightarrow>
        samples (new_events w w') \<noteq> [] \<and> last (samples (new_events w w')) = ''terminated'')"
proof -
  define w0 where "w0 = logger Debug ''cleaning up %s'' [ObjArg r] w"
  have tr0: "trace w0 = trace w @ [cleaning r]" and ob0: "objs w0 = objs w"
    by (simp_all add: w0_def logger_def cleaning_def)
  obtain res1 w1 where ct: "call_terminate r w0 = (res1, w1)" by (cases "call_terminate r w0")
  have ht0: "has_terminate (objs w0 r)" using ht ob0 by simp
  note tc = call_terminate_cases [OF ht0 ct]
  have tr1: "trace w1 = trace w @ [cleaning r, Called r Terminate]"
    using tc(1) tr0 by simp
  show ?thesis
  proof (cases res1)
    case (Inl e)
    have cr: "cleanup_resource r w = Some (Inl e, w1)"
      using cleanup_resource_terminate_raises [OF ht] ct Inl by (simp add: w0_def)
    have ne: "new_events w w1 = [cleaning r, Called r Terminate]"
      using tr1 by (simp add: new_events_def)
    show ?thesis
      unfolding cr
      by (intro exI [of _ "Inl e"] exI [of _ w1] exI [of _ 0]) (simp add: ne cleaning_def)
  next
    case (Inr u)
    from wait_for_status_terminates [of default_sleep_time r "''terminated''" None "5 * 60" w1]
    obtain res2 w2 where wf: "wait_for_status r ''terminated'' None default_timeout
        default_sleep_time w1 = Some (res2, w2)"
      by (auto simp: default_sleep_time_def default_timeout_def)
    from wait_for_status_run [OF wf] obtain evs
      where ne2: "new_events w1 w2 =
          Logged Debug ''waiting for %s to reach status %r'' [ObjArg r, StrArg ''terminated''] # evs"
        and ok: "run_ok r ''terminated'' None (deadline w1 default_timeout) (now w2) evs res2"
        and sh: "poll_shape r ''terminated'' default_sleep_time evs" by blast
    have tr2: "trace w2 = trace w1 @ new_events w1 w2"
      using wait_for_status_attempted [OF wf] by (auto simp: new_events_def)
    from poll_shape_calls [OF sh] obtain n
      where n: "method_calls evs = replicate n (Called r Update)" "length (samples evs) \<le> n" by blast
    note d = run_okD [OF ok]
    let ?pre = "[cleaning r, Called r Terminate,
        Logged Debug ''waiting for %s to reach status %r'' [ObjArg r, StrArg ''terminated'']]"
    have ne_w2: "new_events w w2 = ?pre @ evs"
      using tr1 tr2 ne2 by (simp add: new_events_def)
    have ss_pre: "samples (?pre @ evs) = samples evs" "method_calls (?pre @ evs) = Called r Terminate # method_calls evs"
      by (simp_all add: cleaning_def)
    note cr = cleanup_resource_terminate_returns [OF ht ct [unfolded Inr w0_def] wf]
    show ?thesis
    proof (cases res2)
      case (Inl e)
      from d(3) Inl have nt: "\<not> (samples evs \<noteq> [] \<and> last (samples evs) = ''terminated'')"
        by auto
      have "cleanup_resource r w = Some (Inl e, w2)" using cr Inl by simp
      moreover have "method_calls (new_events w w2) = Called r Terminate # replicate n (Called r Update) @
         (if has_delete (objs w r) \<and> samples (new_events w w2) \<noteq> [] \<and>
             last (samples (new_events w w2)) = ''terminated''
          then [Called r Delete] else [])"
        unfolding ne_w2 ss_pre using nt n(1) by simp
      moreover have "length (samples (new_events w w2)) \<le> n"
        unfolding ne_w2 ss_pre by (rule n(2))
      ultimately show ?thesis by blast
    next
      case (Inr b)
      from d(2) [OF Inr] have ok2: "samples evs \<noteq> []" "last (samples evs) = ''terminated''"
        by auto
      show ?thesis
      proof (cases "has_delete (objs w r)")
        case False
        have "cleanup_resource r w = Some (Inr (), w2)" using cr Inr False by simp
        moreover have "method_calls (new_events w w2) = Called r Terminate # replicate n (Called r Update) @
           (if has_delete (objs w r) \<and> samples (new_events w w2) \<noteq> [] \<and>
               last (samples (new_events w w2)) = ''terminated''
            then [Called r Delete] else [])"
          unfolding ne_w2 ss_pre using False n(1) by simp
        moreover have "length (samples (new_events w w2)) \<le> n"
          "samples (new_events w w2) \<noteq> []" "last (samples (new_events w w2)) = ''terminated''"
          unfolding ne_w2 ss_pre using n(2) ok2 by simp_all
        ultimately show ?thesis by blast
      next
        case True
        obtain res3 w3 where cd: "call_delete r w2 = (res3, w3)" by (cases "call_delete r w2")
        have hd2: "has_delete (objs w2 r)"
          using True wait_for_status_has_delete(1) [OF wf] tc(3) ob0 by simp
        have tr3: "trace w3 = trace w2 @ [Called r Delete]"
          by (rule call_delete_cases [OF hd2 cd])
        have ne_w3: "new_events w w3 = ?pre @ evs @ [Called r Delete]"
          using tr1 tr2 tr3 ne2 by (simp add: new_events_def)
        have ss3: "samples (?pre @ evs @ [Called r Delete]) = samples evs"
          "method_calls (?pre @ evs @ [Called r Delete]) = Called r Terminate # method_calls evs @ [Called r Delete]"
          by (simp_all add: cleaning_def samples_append method_calls_append)
        have "cleanup_resource r w = Some (res3, w3)" using cr Inr True cd by simp
        moreover have "method_calls (new_events w w3) = Called r Terminate # replicate n (Called r Update) @
           (if has_delete (objs w r) \<and> samples (new_events w w3) \<noteq> [] \<and>
               last (samples (new_events w w3)) = ''terminated''
            then [Called r Delete] else [])"
          unfolding ne_w3 ss3 using True n(1) ok2 by simp
        moreover have "length (samples (new_events w w3)) \<le> n"
          "samples (new_events w w3) \<noteq> []" "last (samples (new_events w w3)) = ''terminated''"
          unfolding ne_w3 ss3 using n(2) ok2 by simp_all
        ultimately show ?thesis by blast
      qed
    qed
  qed
qed

lemma cleanup_resource_stuck:
  assumes ht: "has_terminate (objs w r)"
    and nr: "snd (on_terminate (objs w r) (n_terminate (objs w r))) = None"
    and st: "stays_in_transit r ''terminated'' None w"
  shows "\<exists>w'. cleanup_resource r w = Some (Inl (RuntimeError ''Operation timed out''), w') \<and>
     last (trace w') = timeout_warning r ''terminated'' \<and> now w + 300 \<le> now w' \<and>
     Called r Delete \<notin> set (new_events w w')"
proof -
  define w0 where "w0 = logger Debug ''cleaning up %s'' [ObjArg r] w"
  have tr0: "trace w0 = trace w @ [cleaning r]" and ob0: "objs w0 = objs w"
    and now0: "now w0 = now w"
    by (simp_all add: w0_def logger_def cleaning_def)
  obtain res1 w1 where ct: "call_terminate r w0 = (res1, w1)" by (cases "call_terminate r w0")
  have ht0: "has_terminate (objs w0 r)" using ht ob0 by simp
  note tc = call_terminate_cases [OF ht0 ct]
  have res1: "res1 = Inr ()" using tc(6) nr ob0 by simp
  have st1: "stays_in_transit r ''terminated'' None w1"
    using st tc(4,5) ob0 unfolding stays_in_transit_def by simp
  from wait_for_status_stuck_timeout [OF st1, of 5 "5 * 60"] obtain w2
    where wf: "wait_for_status r ''terminated'' None default_timeout default_sleep_time w1 =
        Some (Inl (RuntimeError ''Operation timed out''), w2)"
      and now2: "now w1 + 300 \<le> now w2"
      and la: "last (trace w2) = timeout_warning r ''terminated''"
    by (auto simp: default_timeout_def default_sleep_time_def)
  have cr: "cleanup_resource r w = Some (Inl (RuntimeError ''Operation timed out''), w2)"
    using cleanup_resource_terminate_returns [OF ht ct [unfolded res1 w0_def] wf] by simp
  from wait_for_status_run [OF wf] obtain evs
    where ne2: "new_events w1 w2 =
        Logged Debug ''waiting for %s to reach status %r'' [ObjArg r, StrArg ''terminated''] # evs"
      and sh: "poll_shape r ''terminated'' default_sleep_time evs" by blast
  have tr2: "trace w2 = trace w1 @ new_events w1 w2"
    using wait_for_status_attempted [OF wf] by (auto simp: new_events_def)
  have "\<not> poll_event r ''terminated'' default_sleep_time (Called r Delete)"
    by (simp add: poll_event_def timeout_warning_def unexpected_warning_def)
  with sh have "Called r Delete \<notin> set evs"
    unfolding poll_shape_def list_all_iff by blast
  moreover have "new_events w w2 = [cleaning r, Called r Terminate,
      Logged Debug ''waiting for %s to reach status %r'' [ObjArg r, StrArg ''terminated'']] @ evs"
    using tr0 tc(1) tr2 ne2 by (simp add: new_events_def)
  ultimately have nd: "Called r Delete \<notin> set (new_events w w2)"
    by (simp add: cleaning_def)
  have "now w + 300 \<le> now w2" using now2 tc(2) now0 by simp
  with cr la nd show ?thesis by blast
qed

lemma call_update_time:
  assumes "call_update obj w = (Inr ret, w1)"
  shows "now w1 = now w + int (fst (on_update (objs w obj) (n_update (objs w obj))))"
    and "on_update (objs w1 x) = on_update (objs w x)"
  using assms
  by (auto simp: call_update_def Let_def set_obj_def elapse_def emit_def
        split: if_splits prod.splits upd_outcome.splits)

lemma call_terminate_time:
  assumes "has_terminate (objs w r)" "call_terminate r w = (res, w1)"
  shows "now w1 = now w + int (fst (on_terminate (objs w r) (n_terminate (objs w r))))"
    and "on_update (objs w1 x) = on_update (objs w x)"
  using assms
  by (auto simp: call_terminate_def Let_def set_obj_def elapse_def emit_def
        split: if_splits prod.splits option.splits)

lemma wfs_loop_stuck_bound:
  assumes "0 < st"
  shows "stays_in_transit obj status via w \<Longrightarrow> update_within obj D w \<Longrightarrow>
     \<exists>w'. wfs_loop obj status via (Some m) st w = Some (Inl (RuntimeError ''Operation timed out''), w')
         \<and> m \<le> now w' \<and> now w' \<le> max (now w) (m + st - 1) + int D"
proof (induction "nat (m - now w)" arbitrary: w rule: less_induct)
  case less
  from stays_in_transit_step [OF less.prems(1)] obtain ret w1 cur
    where cu: "call_update obj w = (Inr ret, w1)" and cur: "cur = getattr_status obj ret w1"
      and tr: "transit status via cur"
      and nxt: "stays_in_transit obj status via (slept st (sampled obj cur w1))"
    by blast
  have nt: "cur \<noteq> status" "\<not> unexpected status via cur"
    using tr transit_not_unexpected by auto
  note unf = wfs_loop_returned [OF cu cur, of status via "Some m" st]
  have "fst (on_update (objs w obj) (n_update (objs w obj))) \<le> D"
    using less.prems(2) unfolding update_within_def by blast
  with call_update_time(1) [OF cu] have t1: "now w1 \<le> now w + int D" by simp
  have uw: "update_within obj D (slept st (sampled obj cur w1))"
    using less.prems(2) call_update_time(2) [OF cu] unfolding update_within_def by simp
  show ?case
  proof (cases "m \<le> now w1")
    case True
    then show ?thesis unfolding unf using nt t1 by simp
  next
    case False
    then have eq: "wfs_loop obj status via (Some m) st w =
        wfs_loop obj status via (Some m) st (slept st (sampled obj cur w1))"
      unfolding unf using nt assms by simp
    have "now w \<le> now w1" by (rule call_update_Inr(3) [OF cu])
    with False assms have "nat (m - now (slept st (sampled obj cur w1))) < nat (m - now w)"
      by simp
    from less.hyps [OF this nxt uw] obtain w'
      where r: "wfs_loop obj status via (Some m) st (slept st (sampled obj cur w1)) =
          Some (Inl (RuntimeError ''Operation timed out''), w')" "m \<le> now w'"
        "now w' \<le> max (now (slept st (sampled obj cur w1))) (m + st - 1) + int D"
      by blast
    from False have "now (slept st (sampled obj cur w1)) \<le> m + st - 1" by simp
    with r(3) have "now w' \<le> max (now w) (m + st - 1) + int D" by simp
    with r(1,2) show ?thesis unfolding eq by blast
  qed
qed

lemma wait_for_status_stuck_bound:
  assumes "stays_in_transit obj status via w" "0 < st" "update_within obj D w" "0 \<le> t"
  shows "\<exists>w'. wait_for_status obj status via (Some t) st w =
              Some (Inl (RuntimeError ''Operation timed out''), w') \<and>
           now w + t \<le> now w' \<and> now w' \<le> now w + t + st - 1 + int D"
proof -
  have a: "stays_in_transit obj status via (announced obj status w)"
    using assms(1) by (simp add: stays_in_transit_def)
  have b: "update_within obj D (announced obj status w)"
    using assms(3) by (simp add: update_within_def)
  from wfs_loop_stuck_bound [OF assms(2) a b, of "now w + t"] assms(2,4)
  show ?thesis unfolding wait_for_status_unfold by auto
qed

lemma cleanup_resource_stuck_bound:
  assumes ht: "has_terminate (objs w r)"
    and nr: "on_terminate (objs w r) (n_terminate (objs w r)) = (d, None)"
    and st: "stays_in_transit r ''terminated'' None w"
  shows "\<exists>w1 w'. call_terminate r (logger Debug ''cleaning up %s'' [ObjArg r] w) = (Inr (), w1) \<and>
     now w1 = now w + int d \<and>
     wait_for_status r ''terminated'' None (Some 300) 5 w1 =
       Some (Inl (RuntimeError ''Operation timed out''), w') \<and>
     cleanup_resource r w = Some (Inl (RuntimeError ''Operation timed out''), w') \<and>
     now w1 + 300 \<le> now w' \<and>
     (update_within r D w \<longrightarrow> now w' \<le> now w1 + 304 + int D)"
proof -
  define w0 where "w0 = logger Debug ''cleaning up %s'' [ObjArg r] w"
  have ob0: "objs w0 = objs w" and now0: "now w0 = now w"
    by (simp_all add: w0_def logger_def)
  obtain res1 w1 where ct: "call_terminate r w0 = (res1, w1)" by (cases "call_terminate r w0")
  have ht0: "has_terminate (objs w0 r)" using ht ob0 by simp
  note tc = call_terminate_cases [OF ht0 ct]
  note tt = call_terminate_time [OF ht0 ct]
  have res1: "res1 = Inr ()" using tc(6) nr ob0 by simp
  have now1: "now w1 = now w + int d" using tt(1) nr ob0 now0 by simp
  have st1: "stays_in_transit r ''terminated'' None w1"
    using st tc(4,5) ob0 unfolding stays_in_transit_def by simp
  from wait_for_status_stuck_timeout [OF st1, of 5 300] obtain w2
    where wf: "wait_for_status r ''terminated'' None (Some 300) 5 w1 =
        Some (Inl (RuntimeError ''Operation timed out''), w2)"
      and now2: "now w1 + 300 \<le> now w2"
    by auto
  have wf': "wait_for_status r ''terminated'' None default_timeout default_sleep_time w1 =
        Some (Inl (RuntimeError ''Operation timed out''), w2)"
    using wf by (simp add: default_timeout_def default_sleep_time_def)
  have cr: "cleanup_resource r w = Some (Inl (RuntimeError ''Operation timed out''), w2)"
    using cleanup_resource_terminate_returns [OF ht ct [unfolded res1 w0_def] wf'] by simp
  have ub: "now w2 \<le> now w1 + 304 + int D" if "update_within r D w"
  proof -
    from that have "update_within r D w1"
      using tt(2) ob0 unfolding update_within_def by simp
    from wait_for_status_stuck_bound [OF st1 _ this, of 5 300] wf
    show ?thesis by auto
  qed
  from ct res1 now1 wf cr now2 ub show ?thesis unfolding w0_def by blast
qed

lemma slow_stuck_world_facts:
  "has_terminate (objs slow_stuck_world 0) \<and>
   on_terminate (objs slow_stuck_world 0) (n_terminate (objs slow_stuck_world 0)) = (7, None) \<and>
   stays_in_transit 0 ''terminated'' None slow_stuck_world"
  "update_within 0 2 slow_stuck_world"
  by (simp_all add: slow_stuck_world_def example_obj_def stays_in_transit_def observed_def
        transit_def update_within_def)

lemma stuck_world_facts:
  "has_terminate (objs stuck_world 0)"
  "snd (on_terminate (objs stuck_world 0) (n_terminate (objs stuck_world 0))) = None"
  "stays_in_transit 0 ''terminated'' None stuck_world"
  by (simp_all add: stuck_world_def example_obj_def stays_in_transit_def observed_def transit_def)

text \<open>
  C7.  The teardown of one resource.  With \<open>delete\<close> and no \<open>terminate\<close>, the only method
  called is \<open>delete\<close>, once.  With neither, nothing happens but the debug message.  With
  \<open>terminate\<close>, the first call is \<open>terminate\<close>; the calls after it are the poller's
  \<open>update\<close> calls, at least one for each status sampled; and \<open>delete\<close> follows, as the last
  call, exactly when the resource has it and the poll ended on status \<open>terminated\<close>, which
  is the case whenever the teardown returns without an exception.
\<close>

theorem cleanup_dispatch:
  "(\<not> has_terminate (objs w r) \<and> has_delete (objs w r) \<longrightarrow>
      (\<exists>res w'. cleanup_resource r w = Some (res, w') \<and>
         method_calls (new_events w w') = [Called r Delete])) \<and>
   (\<not> has_terminate (objs w r) \<and> \<not> has_delete (objs w r) \<longrightarrow>
      cleanup_resource r w = Some (Inr (), logger Debug ''cleaning up %s'' [ObjArg r] w) \<and>
      method_calls (new_events w (logger Debug ''cleaning up %s'' [ObjArg r] w)) = []) \<and>
   (has_terminate (objs w r) \<longrightarrow>
      (\<exists>res w' n. cleanup_resource r w = Some (res, w') \<and>
         method_calls (new_events w w') =
           Called r Terminate # replicate n (Called r Update) @
           (if has_delete (objs w r) \<and> samples (new_events w w') \<noteq> [] \<and>
               last (samples (new_events w w')) = ''terminated''
            then [Called r Delete] else []) \<and>
         length (samples (new_events w w')) \<le> n \<and>
         (res = Inr () \<longrightarrow>
            samples (new_events w w') \<noteq> [] \<and>
            last (samples (new_events w w')) = ''terminated'')))"
proof (intro conjI impI)
  assume a: "\<not> has_terminate (objs w r) \<and> has_delete (objs w r)"
  define w0 where "w0 = logger Debug ''cleaning up %s'' [ObjArg r] w"
  obtain res w' where cd: "call_delete r w0 = (res, w')" by (cases "call_delete r w0")
  have "has_delete (objs w0 r)" using a by (simp add: w0_def logger_def)
  from call_delete_cases [OF this cd]
  have "new_events w w' = [cleaning r, Called r Delete]"
    by (simp add: w0_def logger_def new_events_def cleaning_def)
  moreover have "cleanup_resource r w = Some (res, w')"
    using a cd cleanup_resource_no_terminate [of w r] by (simp add: w0_def)
  ultimately show "\<exists>res w'. cleanup_resource r w = Some (res, w') \<and>
         method_calls (new_events w w') = [Called r Delete]"
    by (intro exI [of _ res] exI [of _ w']) simp
next
  assume a: "\<not> has_terminate (objs w r) \<and> \<not> has_delete (objs w r)"
  then show "cleanup_resource r w = Some (Inr (), logger Debug ''cleaning up %s'' [ObjArg r] w)"
    using cleanup_resource_no_terminate [of w r] by simp
  show "method_calls (new_events w (logger Debug ''cleaning up %s'' [ObjArg r] w)) = []"
    by (simp add: logger_def new_events_def)
next
  assume "has_terminate (objs w r)"
  then show "\<exists>res w' n. cleanup_resource r w = Some (res, w') \<and>
         method_calls (new_events w w') =
           Called r Terminate # replicate n (Called r Update) @
           (if has_delete (objs w r) \<and> samples (new_events w w') \<noteq> [] \<and>
               last (samples (new_events w w')) = ''terminated''
            then [Called r Delete] else []) \<and>
         length (samples (new_events w w')) \<le> n \<and>
         (res = Inr () \<longrightarrow>
            samples (new_events w w') \<noteq> [] \<and>
            last (samples (new_events w w')) = ''terminated'')"
    by (rule cleanup_resource_terminate)
qed

lemma example_both:
  "\<exists>w'. cleanup_resource 0 both_world = Some (Inr (), w') \<and>
     method_calls (new_events both_world w') =
       [Called 0 Terminate, Called 0 Update, Called 0 Update, Called 0 Delete] \<and>
     samples (new_events both_world w') = [''shutting-down'', ''terminated'']"
  by (simp add: both_world_def example_obj_def cleanup_resource_def prim_defs
        wait_for_status_def wfs_loop.simps default_timeout_def default_sleep_time_def
        Let_def new_events_def)

theorem cleanup_dispatch_witness:
  "(\<exists>res w'. cleanup_resource 1 example_world = Some (res, w') \<and>
      method_calls (new_events example_world w') = [Called 1 Delete]) \<and>
   cleanup_resource 3 example_world =
     Some (Inr (), logger Debug ''cleaning up %s'' [ObjArg 3] example_world) \<and>
   (\<exists>w' n. cleanup_resource 0 both_world = Some (Inr (), w') \<and>
      method_calls (new_events both_world w') =
        Called 0 Terminate # replicate n (Called 0 Update) @ [Called 0 Delete] \<and>
      last (samples (new_events both_world w')) = ''terminated'')"
proof -
  have h1: "\<not> has_terminate (objs example_world 1) \<and> has_delete (objs example_world 1)"
    by (simp add: example_defs)
  have h3: "\<not> has_terminate (objs example_world 3) \<and> \<not> has_delete (objs example_world 3)"
    by (simp add: example_defs)
  have h0: "has_terminate (objs both_world 0)" and hd: "has_delete (objs both_world 0)"
    by (simp_all add: both_world_def example_obj_def)
  have a: "\<exists>res w'. cleanup_resource 1 example_world = Some (res, w') \<and>
      method_calls (new_events example_world w') = [Called 1 Delete]"
    using cleanup_dispatch [where w = example_world and r = 1, THEN conjunct1, THEN mp, OF h1] .
  have b: "cleanup_resource 3 example_world =
     Some (Inr (), logger Debug ''cleaning up %s'' [ObjArg 3] example_world)"
    using cleanup_dispatch [where w = example_world and r = 3, THEN conjunct2, THEN conjunct1,
        THEN mp, OF h3] by (rule conjunct1)
  from cleanup_dispatch [where w = both_world and r = 0, THEN conjunct2, THEN conjunct2,
        THEN mp, OF h0]
  obtain res w' n where c: "cleanup_resource 0 both_world = Some (res, w')"
    "method_calls (new_events both_world w') =
           Called 0 Terminate # replicate n (Called 0 Update) @
           (if has_delete (objs both_world 0) \<and> samples (new_events both_world w') \<noteq> [] \<and>
               last (samples (new_events both_world w')) = ''terminated''
            then [Called 0 Delete] else [])"
    by blast
  from example_both c(1) have r: "res = Inr ()"
    and ss: "samples (new_events both_world w') = [''shutting-down'', ''terminated'']"
    by auto
  have "method_calls (new_events both_world w') =
        Called 0 Terminate # replicate n (Called 0 Update) @ [Called 0 Delete]"
    using c(2) hd ss by simp
  with c(1) r ss have "\<exists>w' n. cleanup_resource 0 both_world = Some (Inr (), w') \<and>
      method_calls (new_events both_world w') =
        Called 0 Terminate # replicate n (Called 0 Update) @ [Called 0 Delete] \<and>
      last (samples (new_events both_world w')) = ''terminated''"
    by auto
  with a b show ?thesis by blast
qed

text \<open>
  C4.  An instance whose \<open>terminate()\<close> returns and which stays in status
  \<open>shutting-down\<close> for ever: its teardown does not block.  It returns, with the timed-out
  error of the poller, whose timeout warning is the last event.
\<close>

theorem teardown_poll_times_out:
  "cleanup_resource 0 stuck_world \<noteq> None \<and>
   fst (the (cleanup_resource 0 stuck_world)) = Inl (RuntimeError ''Operation timed out'') \<and>
   last (trace (snd (the (cleanup_resource 0 stuck_world)))) = timeout_warning 0 ''terminated''"
  using cleanup_resource_stuck [OF stuck_world_facts] by auto

text \<open>
  C4, as the code has it.  The poll that follows \<open>terminate()\<close> is
  \<open>wait_for_status(resource, "terminated")\<close>: it runs with the default timeout of 300 and
  the default interval of 5, and its clock starts when \<open>terminate()\<close> has returned.  For
  a resource whose \<open>terminate()\<close> returns, after \<open>d\<close> seconds, and which never reports
  \<open>terminated\<close>, the teardown ends with the result of that poll, the timed-out error, whose
  warning is the last event, and \<open>delete\<close> is not called.  It ends 300 seconds or more
  after the poll began; and less than 305 seconds after, plus \<open>D\<close>, when no \<open>update()\<close>
  takes longer than \<open>D\<close>.
\<close>

theorem teardown_poll_default_timeout:
  "default_timeout = Some 300 \<and> default_sleep_time = 5 \<and>
   (has_terminate (objs w r) \<and>
    on_terminate (objs w r) (n_terminate (objs w r)) = (d, None) \<and>
    stays_in_transit r ''terminated'' None w \<longrightarrow>
      (\<exists>w1 w'. call_terminate r (logger Debug ''cleaning up %s'' [ObjArg r] w) = (Inr (), w1) \<and>
         now w1 = now w + int d \<and>
         wait_for_status r ''terminated'' None (Some 300) 5 w1 =
           Some (Inl (RuntimeError ''Operation timed out''), w') \<and>
         cleanup_resource r w = Some (Inl (RuntimeError ''Operation timed out''), w') \<and>
         last (trace w') = timeout_warning r ''terminated'' \<and>
         Called r Delete \<notin> set (new_events w w') \<and>
         now w1 + 300 \<le> now w' \<and>
         (update_within r D w \<longrightarrow> now w' \<le> now w1 + 304 + int D)))"
proof (intro conjI impI)
  show "default_timeout = Some 300" by (simp add: default_timeout_def)
  show "default_sleep_time = 5" by (simp add: default_sleep_time_def)
next
  assume a: "has_terminate (objs w r) \<and>
    on_terminate (objs w r) (n_terminate (objs w r)) = (d, None) \<and>
    stays_in_transit r ''terminated'' None w"
  then have nr: "snd (on_terminate (objs w r) (n_terminate (objs w r))) = None" by simp
  from cleanup_resource_stuck_bound [of w r d D] a obtain w1 w'
    where b: "call_terminate r (logger Debug ''cleaning up %s'' [ObjArg r] w) = (Inr (), w1)"
      "now w1 = now w + int d"
      "wait_for_status r ''terminated'' None (Some 300) 5 w1 =
         Some (Inl (RuntimeError ''Operation timed out''), w')"
      "cleanup_resource r w = Some (Inl (RuntimeError ''Operation timed out''), w')"
      "now w1 + 300 \<le> now w'"
      "update_within r D w \<longrightarrow> now w' \<le> now w1 + 304 + int D"
    by blast
  from cleanup_resource_stuck [of w r] a nr b(4)
  have c: "last (trace w') = timeout_warning r ''terminated''"
    "Called r Delete \<notin> set (new_events w w')"
    by auto
  from b c show "\<exists>w1 w'.
      call_terminate r (logger Debug ''cleaning up %s'' [ObjArg r] w) = (Inr (), w1) \<and>
      now w1 = now w + int d \<and>
      wait_for_status r ''terminated'' None (Some 300) 5 w1 =
        Some (Inl (RuntimeError ''Operation timed out''), w') \<and>
      cleanup_resource r w = Some (Inl (RuntimeError ''Operation timed out''), w') \<and>
      last (trace w') = timeout_warning r ''terminated'' \<and>
      Called r Delete \<notin> set (new_events w w') \<and>
      now w1 + 300 \<le> now w' \<and>
      (update_within r D w \<longrightarrow> now w' \<le> now w1 + 304 + int D)"
    by blast
qed

theorem teardown_poll_default_timeout_witness:
  "\<exists>w1 w'. call_terminate 0 (logger Debug ''cleaning up %s'' [ObjArg 0] slow_stuck_world)
              = (Inr (), w1) \<and>
     now w1 = 7 \<and>
     wait_for_status 0 ''terminated'' None (Some 300) 5 w1 =
       Some (Inl (RuntimeError ''Operation timed out''), w') \<and>
     cleanup_resource 0 slow_stuck_world = Some (Inl (RuntimeError ''Operation timed out''), w') \<and>
     last (trace w') = timeout_warning 0 ''terminated'' \<and>
     Called 0 Delete \<notin> set (new_events slow_stuck_world w') \<and>
     307 \<le> now w' \<and> now w' \<le> 313"
proof -
  from teardown_poll_default_timeout [where w = slow_stuck_world and r = 0 and d = 7 and D = 2,
      THEN conjunct2, THEN conjunct2, THEN mp, OF slow_stuck_world_facts(1)]
  obtain w1 w'
    where b: "call_terminate 0 (logger Debug ''cleaning up %s'' [ObjArg 0] slow_stuck_world)
          = (Inr (), w1)"
      "now w1 = now slow_stuck_world + int 7"
      "wait_for_status 0 ''terminated'' None (Some 300) 5 w1 =
         Some (Inl (RuntimeError ''Operation timed out''), w')"
      "cleanup_resource 0 slow_stuck_world = Some (Inl (RuntimeError ''Operation timed out''), w')"
      "last (trace w') = timeout_warning 0 ''terminated''"
      "Called 0 Delete \<notin> set (new_events slow_stuck_world w')"
      "now w1 + 300 \<le> now w'"
      "update_within 0 2 slow_stuck_world \<longrightarrow> now w' \<le> now w1 + 304 + int 2"
    by blast
  have n: "now slow_stuck_world = 0" by (simp add: slow_stuck_world_def)
  from b(2) n have n1: "now w1 = 7" by simp
  from b(7) n1 have lo: "307 \<le> now w'" by simp
  from b(8) slow_stuck_world_facts(2) n1 have hi: "now w' \<le> 313" by simp
  from b(1,3,4,5,6) n1 lo hi show ?thesis by blast
qed

section \<open>The readiness wait\<close>

lemma ssh_loop_refused:
  assumes na: "never_accepts i st w" and st: "0 \<le> st"
  shows "\<exists>w2. now w \<le> now w2 \<and> now w2 \<le> now w + st \<and> never_accepts i st w2 \<and>
     method_calls (new_events w w2) = [Called i Connect] \<and>
     (\<exists>evs. trace w2 = trace w @ evs) \<and>
     ssh_loop i mt st w =
       (if (\<exists>m. mt = Some m \<and> m \<le> now w2)
        then Some (Inl (RuntimeError ''Operation timed out''), emit (ready_timeout_warning i) w2)
        else ssh_loop i mt st (slept st w2))"
proof -
  from na obtain host where dns: "public_dns_name (objs w i) = Some host"
    unfolding never_accepts_def by auto
  define w1 where "w1 = logger Debug ''...waiting for ssh on %s'' [StrArg host] w"
  obtain d ok where oc: "on_connect (objs w i) (n_connect (objs w i)) = (d, ok)"
    by (cases "on_connect (objs w i) (n_connect (objs w i))")
  from na oc have fail: "\<not> ok \<or> st < int d"
    unfolding never_accepts_def by (metis fst_conv snd_conv)
  define w2 where "w2 = snd (socket_connect i st w1)"
  have sc: "socket_connect i st w1 = (Inl SocketError, w2)"
    using fail st oc unfolding w2_def
    by (auto simp: socket_connect_def w1_def logger_def Let_def)
  have now2: "now w \<le> now w2" "now w2 \<le> now w + st"
    using fail st oc unfolding w2_def
    by (auto simp: socket_connect_def w1_def logger_def Let_def elapse_def set_obj_def)
  have tr2: "trace w2 = trace w @
      [Logged Debug ''...waiting for ssh on %s'' [StrArg host], Called i Connect]"
    using fail st oc unfolding w2_def
    by (auto simp: socket_connect_def w1_def logger_def Let_def elapse_def set_obj_def)
  have na2: "never_accepts i st w2"
    using na fail st oc unfolding w2_def never_accepts_def
    by (auto simp: socket_connect_def w1_def logger_def Let_def elapse_def set_obj_def)
  have unf: "ssh_loop i mt st w =
     (if (case mt of None \<Rightarrow> False | Some m \<Rightarrow> time_time w2 \<ge> m)
      then Some (Inl (RuntimeError ''Operation timed out''),
                 logger Warn ''...timeout waiting for %s to be ready'' [ObjArg i] w2)
      else (case time_sleep st w2 of
              (Inl e', w3) \<Rightarrow> Some (Inl e', w3)
            | (Inr u, w3) \<Rightarrow> ssh_loop i mt st w3))"
    by (subst ssh_loop.simps) (simp add: dns sc [unfolded w1_def])
  have c: "(case mt of None \<Rightarrow> False | Some m \<Rightarrow> time_time w2 \<ge> m) = (\<exists>m. mt = Some m \<and> m \<le> now w2)"
    by (cases mt) (simp_all add: time_time_def)
  have sl: "(case time_sleep st w2 of
              (Inl e', w3) \<Rightarrow> Some (Inl e', w3)
            | (Inr u, w3) \<Rightarrow> ssh_loop i mt st w3) = ssh_loop i mt st (slept st w2)"
    using st by (simp add: time_sleep_def slept_def)
  have lw: "logger Warn ''...timeout waiting for %s to be ready'' [ObjArg i] w2 =
      emit (ready_timeout_warning i) w2"
    by (simp add: logger_def ready_timeout_warning_def)
  have "ssh_loop i mt st w =
       (if (\<exists>m. mt = Some m \<and> m \<le> now w2)
        then Some (Inl (RuntimeError ''Operation timed out''), emit (ready_timeout_warning i) w2)
        else ssh_loop i mt st (slept st w2))"
    unfolding unf c sl lw ..
  moreover have "method_calls (new_events w w2) = [Called i Connect]"
    using tr2 by (simp add: new_events_def)
  ultimately show ?thesis using now2 na2 tr2 by blast
qed

lemma ssh_loop_times_out:
  assumes "0 < st"
  shows "never_accepts i st w \<Longrightarrow>
     \<exists>w'. ssh_loop i (Some m) st w = Some (Inl (RuntimeError ''Operation timed out''), w') \<and>
       m \<le> now w' \<and> now w' \<le> max (now w + st) (m + 2 * st) \<and>
       (m \<le> now w \<longrightarrow> method_calls (new_events w w') = [Called i Connect])"
proof (induction "nat (m - now w)" arbitrary: w rule: less_induct)
  case less
  from ssh_loop_refused [OF less.prems, of "Some m"] assms obtain w2 evs
    where w2: "now w \<le> now w2" "now w2 \<le> now w + st" "never_accepts i st w2"
      "method_calls (new_events w w2) = [Called i Connect]" "trace w2 = trace w @ evs"
      and unf: "ssh_loop i (Some m) st w =
       (if m \<le> now w2
        then Some (Inl (RuntimeError ''Operation timed out''), emit (ready_timeout_warning i) w2)
        else ssh_loop i (Some m) st (slept st w2))"
    by auto
  show ?case
  proof (cases "m \<le> now w2")
    case True
    have "method_calls (new_events w (emit (ready_timeout_warning i) w2)) = [Called i Connect]"
      using w2(4,5) by (simp add: new_events_def ready_timeout_warning_def method_calls_append)
    with True w2 show ?thesis unfolding unf by simp
  next
    case False
    then have eq: "ssh_loop i (Some m) st w = ssh_loop i (Some m) st (slept st w2)"
      unfolding unf by simp
    have na3: "never_accepts i st (slept st w2)"
      using w2(3) by (simp add: never_accepts_def)
    from False w2(1) assms have "nat (m - now (slept st w2)) < nat (m - now w)" by simp
    from less.hyps [OF this na3] obtain w'
      where r: "ssh_loop i (Some m) st (slept st w2) =
          Some (Inl (RuntimeError ''Operation timed out''), w')"
        "m \<le> now w'" "now w' \<le> max (now (slept st w2) + st) (m + 2 * st)" by blast
    from False w2(1) have "\<not> m \<le> now w" by simp
    moreover from r(3) False w2(2) have "now w' \<le> max (now w + st) (m + 2 * st)" by simp
    ultimately show ?thesis unfolding eq using r(1,2) by blast
  qed
qed

lemma wait_for_instance_ready_unfold:
  "wait_for_instance_ready instance timeout st w =
     (case wait_for_status instance ''running'' (Some [''pending'']) timeout st
             (logger Debug ''waiting for %s to be ready'' [ObjArg instance] w) of
        None \<Rightarrow> None
      | Some (Inl e, w1) \<Rightarrow> Some (Inl e, w1)
      | Some (Inr b, w1) \<Rightarrow> ssh_loop instance (deadline w timeout) st w1)"
proof -
  have d: "(case timeout of None \<Rightarrow> None
            | Some t \<Rightarrow> Some (time_time
                (logger Debug ''waiting for %s to be ready'' [ObjArg instance] w) + t)) =
      deadline w timeout"
    by (cases timeout) (simp_all add: deadline_def time_time_def logger_def)
  show ?thesis unfolding wait_for_instance_ready_def Let_def d ..
qed

lemma wait_for_instance_ready_times_out:
  assumes "wait_for_status instance ''running'' (Some [''pending'']) (Some t) st
             (logger Debug ''waiting for %s to be ready'' [ObjArg instance] w) = Some (Inr True, w1)"
    and "never_accepts instance st w1" and "0 < st"
  shows "\<exists>w2. wait_for_instance_ready instance (Some t) st w =
             Some (Inl (RuntimeError ''Operation timed out''), w2) \<and>
           now w + t \<le> now w2 \<and>
           now w2 \<le> max (now w1 + st) (now w + t + 2 * st) \<and>
           (now w + t \<le> now w1 \<longrightarrow> method_calls (new_events w1 w2) = [Called instance Connect])"
  unfolding wait_for_instance_ready_unfold
  using ssh_loop_times_out [OF assms(3,2), of "now w + t"] assms(1)
  by (simp add: deadline_def)

lemmas ready_defs = ready_world_def example_obj_def wait_for_instance_ready_def
  wait_for_status_def wfs_loop.simps ssh_loop.simps prim_defs Let_def

lemma example_ready_fast:
  "wait_for_instance_ready 0 (Some 10) 5 (ready_world []) =
     Some (Inl (RuntimeError ''Operation timed out''),
           snd (the (wait_for_instance_ready 0 (Some 10) 5 (ready_world []))))"
  "trace (snd (the (wait_for_instance_ready 0 (Some 10) 5 (ready_world [])))) =
     [Logged Debug ''waiting for %s to be ready'' [ObjArg 0],
      Logged Debug ''waiting for %s to reach status %r'' [ObjArg 0, StrArg ''running''],
      Called 0 Update,
      Logged Debug ''...%s is currently %r'' [ObjArg 0, StrArg ''running''],
      Logged Debug ''...waiting for ssh on %s'' [StrArg ''ec2-host''],
      Called 0 Connect, Slept 5,
      Logged Debug ''...waiting for ssh on %s'' [StrArg ''ec2-host''],
      Called 0 Connect, Slept 5,
      Logged Debug ''...waiting for ssh on %s'' [StrArg ''ec2-host''],
      Called 0 Connect,
      Logged Warn ''...timeout waiting for %s to be ready'' [ObjArg 0]]"
  "now (snd (the (wait_for_instance_ready 0 (Some 10) 5 (ready_world [])))) = 10"
  by (simp_all add: ready_defs)

lemma example_ready_slow:
  "wait_for_instance_ready 0 (Some 10) 5 (ready_world [''pending'', ''pending'']) =
     Some (Inl (RuntimeError ''Operation timed out''),
           snd (the (wait_for_instance_ready 0 (Some 10) 5 (ready_world [''pending'', ''pending'']))))"
  "trace (snd (the (wait_for_instance_ready 0 (Some 10) 5 (ready_world [''pending'', ''pending''])))) =
     [Logged Debug ''waiting for %s to be ready'' [ObjArg 0],
      Logged Debug ''waiting for %s to reach status %r'' [ObjArg 0, StrArg ''running''],
      Called 0 Update,
      Logged Debug ''...%s is currently %r'' [ObjArg 0, StrArg ''pending''],
      Slept 5, Called 0 Update,
      Logged Debug ''...%s is currently %r'' [ObjArg 0, StrArg ''pending''],
      Slept 5, Called 0 Update,
      Logged Debug ''...%s is currently %r'' [ObjArg 0, StrArg ''running''],
      Logged Debug ''...waiting for ssh on %s'' [StrArg ''ec2-host''],
      Called 0 Connect,
      Logged Warn ''...timeout waiting for %s to be ready'' [ObjArg 0]]"
  "now (snd (the (wait_for_instance_ready 0 (Some 10) 5 (ready_world [''pending'', ''pending''])))) = 10"
  by (simp_all add: ready_defs)

lemma example_ready_status_phase:
  "wait_for_status 0 ''running'' (Some [''pending'']) (Some 10) 5
      (logger Debug ''waiting for %s to be ready'' [ObjArg 0] (ready_world [''pending'', ''pending''])) =
     Some (Inr True,
       snd (the (wait_for_status 0 ''running'' (Some [''pending'']) (Some 10) 5
         (logger Debug ''waiting for %s to be ready'' [ObjArg 0]
            (ready_world [''pending'', ''pending''])))))"
  "now (snd (the (wait_for_status 0 ''running'' (Some [''pending'']) (Some 10) 5
         (logger Debug ''waiting for %s to be ready'' [ObjArg 0]
            (ready_world [''pending'', ''pending'']))))) = 10"
  "never_accepts 0 5 (snd (the (wait_for_status 0 ''running'' (Some [''pending'']) (Some 10) 5
         (logger Debug ''waiting for %s to be ready'' [ObjArg 0]
            (ready_world [''pending'', ''pending''])))))"
  by (simp_all add: ready_defs never_accepts_def)

text \<open>
  C5.  Two runs of the readiness wait with a timeout of 10, an interval of 5 and a port
  that refuses every connection.  When the instance is running at once, three connections
  are tried, at 0, 5 and 10.  When the instance is pending at 0 and 5 and running at 10,
  the wait fails at 10 as well, after a single connection attempt and no sleep: the
  second phase had nothing left of the budget the first phase used.
\<close>

theorem readiness_second_phase_has_no_budget_of_its_own:
  "wait_for_instance_ready 0 (Some 10) 5 (ready_world []) =
     Some (Inl (RuntimeError ''Operation timed out''),
           snd (the (wait_for_instance_ready 0 (Some 10) 5 (ready_world [])))) \<and>
   method_calls (trace (snd (the (wait_for_instance_ready 0 (Some 10) 5 (ready_world []))))) =
     [Called 0 Update, Called 0 Connect, Called 0 Connect, Called 0 Connect] \<and>
   now (snd (the (wait_for_instance_ready 0 (Some 10) 5 (ready_world [])))) = 10 \<and>
   wait_for_instance_ready 0 (Some 10) 5 (ready_world [''pending'', ''pending'']) =
     Some (Inl (RuntimeError ''Operation timed out''),
           snd (the (wait_for_instance_ready 0 (Some 10) 5 (ready_world [''pending'', ''pending''])))) \<and>
   trace (snd (the (wait_for_instance_ready 0 (Some 10) 5 (ready_world [''pending'', ''pending''])))) =
     [Logged Debug ''waiting for %s to be ready'' [ObjArg 0],
      Logged Debug ''waiting for %s to reach status %r'' [ObjArg 0, StrArg ''running''],
      Called 0 Update,
      Logged Debug ''...%s is currently %r'' [ObjArg 0, StrArg ''pending''],
      Slept 5, Called 0 Update,
      Logged Debug ''...%s is currently %r'' [ObjArg 0, StrArg ''pending''],
      Slept 5, Called 0 Update,
      Logged Debug ''...%s is currently %r'' [ObjArg 0, StrArg ''running''],
      Logged Debug ''...waiting for ssh on %s'' [StrArg ''ec2-host''],
      Called 0 Connect,
      Logged Warn ''...timeout waiting for %s to be ready'' [ObjArg 0]] \<and>
   now (snd (the (wait_for_instance_ready 0 (Some 10) 5 (ready_world [''pending'', ''pending''])))) = 10"
  using example_ready_fast example_ready_slow by simp

text \<open>
  C5, as the code has it.  The deadline of the connection loop is the time at which
  \<open>wait_for_instance_ready\<close> was entered plus the timeout, and the status poll started
  there has that same deadline: the two phases share it.  When the status poll has
  succeeded and the port never accepts a connection, the wait raises the timed-out error at
  the first failed connection attempt that ends at or after that deadline: not before it,
  and no later than two intervals after it or, if the status poll ended later than that,
  one interval after the status poll.  A status poll that ended at or after the deadline
  leaves the second phase a single connection attempt.
\<close>

theorem readiness_shared_deadline:
  "wait_for_instance_ready inst timeout st w =
     (case wfs_loop inst ''running'' (Some [''pending'']) (deadline w timeout) st
             (announced inst ''running''
                (logger Debug ''waiting for %s to be ready'' [ObjArg inst] w)) of
        None \<Rightarrow> None
      | Some (Inl e, w1) \<Rightarrow> Some (Inl e, w1)
      | Some (Inr b, w1) \<Rightarrow> ssh_loop inst (deadline w timeout) st w1) \<and>
   deadline w (Some t) = Some (now w + t) \<and>
   (wait_for_status inst ''running'' (Some [''pending'']) (Some t) st
       (logger Debug ''waiting for %s to be ready'' [ObjArg inst] w) = Some (Inr True, w1) \<and>
    never_accepts inst st w1 \<and> 0 < st \<longrightarrow>
      (\<exists>w2. wait_for_instance_ready inst (Some t) st w =
               Some (Inl (RuntimeError ''Operation timed out''), w2) \<and>
            now w + t \<le> now w2 \<and>
            now w2 \<le> max (now w1 + st) (now w + t + 2 * st) \<and>
            (now w + t \<le> now w1 \<longrightarrow>
               method_calls (new_events w1 w2) = [Called inst Connect])))"
proof (intro conjI impI)
  have "deadline (logger Debug ''waiting for %s to be ready'' [ObjArg inst] w) timeout =
      deadline w timeout"
    by (cases timeout) (simp_all add: deadline_def logger_def)
  then show "wait_for_instance_ready inst timeout st w =
     (case wfs_loop inst ''running'' (Some [''pending'']) (deadline w timeout) st
             (announced inst ''running''
                (logger Debug ''waiting for %s to be ready'' [ObjArg inst] w)) of
        None \<Rightarrow> None
      | Some (Inl e, w1) \<Rightarrow> Some (Inl e, w1)
      | Some (Inr b, w1) \<Rightarrow> ssh_loop inst (deadline w timeout) st w1)"
    unfolding wait_for_instance_ready_unfold wait_for_status_unfold
    by (simp add: deadline_def)
  show "deadline w (Some t) = Some (now w + t)"
    by (simp add: deadline_def)
next
  assume "wait_for_status inst ''running'' (Some [''pending'']) (Some t) st
       (logger Debug ''waiting for %s to be ready'' [ObjArg inst] w) = Some (Inr True, w1) \<and>
    never_accepts inst st w1 \<and> 0 < st"
  then show "\<exists>w2. wait_for_instance_ready inst (Some t) st w =
               Some (Inl (RuntimeError ''Operation timed out''), w2) \<and>
            now w + t \<le> now w2 \<and>
            now w2 \<le> max (now w1 + st) (now w + t + 2 * st) \<and>
            (now w + t \<le> now w1 \<longrightarrow>
               method_calls (new_events w1 w2) = [Called inst Connect])"
    using wait_for_instance_ready_times_out by blast
qed

theorem readiness_shared_deadline_witness:
  "\<exists>w2. wait_for_instance_ready 0 (Some 10) 5 (ready_world [''pending'', ''pending'']) =
           Some (Inl (RuntimeError ''Operation timed out''), w2) \<and>
        10 \<le> now w2 \<and> now w2 \<le> 20 \<and>
        method_calls (new_events
          (snd (the (wait_for_status 0 ''running'' (Some [''pending'']) (Some 10) 5
             (logger Debug ''waiting for %s to be ready'' [ObjArg 0]
                (ready_world [''pending'', ''pending''])))))
          w2) = [Called 0 Connect]"
proof -
  let ?w = "ready_world [''pending'', ''pending'']"
  let ?w1 = "snd (the (wait_for_status 0 ''running'' (Some [''pending'']) (Some 10) 5
             (logger Debug ''waiting for %s to be ready'' [ObjArg 0] ?w)))"
  have h: "wait_for_status 0 ''running'' (Some [''pending'']) (Some 10) 5
       (logger Debug ''waiting for %s to be ready'' [ObjArg 0] ?w) = Some (Inr True, ?w1) \<and>
    never_accepts 0 5 ?w1 \<and> (0::int) < 5"
    using example_ready_status_phase by simp
  have n: "now ?w = 0" by (simp add: ready_world_def)
  from readiness_shared_deadline [where inst = 0 and timeout = "Some 10" and st = 5
      and w = ?w and t = 10 and ?w1.0 = ?w1, THEN conjunct2, THEN conjunct2, THEN mp, OF h]
  show ?thesis
    unfolding n example_ready_status_phase(2) by simp
qed

end
